theory Spec2Isabelle
  imports Main
begin

section \<open>Patterns and matching\<close>

text \<open>
  The helper class \<open>CMBlockMarkerHelperV2\<close> receives two JavaScript \<open>RegExp\<close> objects.
  A \<open>RegExp\<close> is a pattern together with the mutable property \<open>lastIndex\<close>. The pattern
  is kept abstract: \<open>rx_match_at p s i\<close> answers whether the pattern matches the string
  \<open>s\<close> with the match starting exactly at index \<open>i\<close>, and if so gives the length of the
  match and the captured groups. The flags \<open>g\<close> and \<open>y\<close> decide whether \<open>lastIndex\<close> is
  read and written. The value of \<open>lastIndex\<close> is threaded through every call explicitly.
\<close>

record pattern =
  rx_match_at :: "string \<Rightarrow> nat \<Rightarrow> (nat \<times> string list) option"
  rx_global :: bool
  rx_sticky :: bool

type_synonym match = "string list option"

text \<open>The search loop of \<open>RegExpBuiltinExec\<close>: try index \<open>i\<close>, then \<open>i + 1\<close>, ... up to
  the length of the string; a sticky pattern tries only the first index.\<close>

function exec_from :: "pattern \<Rightarrow> string \<Rightarrow> nat \<Rightarrow> (nat \<times> nat \<times> string list) option" where
  "exec_from p s i =
     (if length s < i then None
      else (case rx_match_at p s i of
              Some (len, caps) \<Rightarrow> Some (i, i + len, caps)
            | None \<Rightarrow> if rx_sticky p then None else exec_from p s (Suc i)))"
  by pat_completeness auto
termination
  by (relation "measure (\<lambda>(p, s, i). Suc (length s) - i)") auto

declare exec_from.simps [simp del]

text \<open>\<open>RegExpBuiltinExec\<close>: the result array (whole match followed by the captures) or
  null, and the new value of \<open>lastIndex\<close>.\<close>

definition regexp_exec :: "pattern \<Rightarrow> nat \<Rightarrow> string \<Rightarrow> match \<times> nat" where
  "regexp_exec p lastIndex s =
     (let stateful = (rx_global p \<or> rx_sticky p) in
      case exec_from p s (if stateful then lastIndex else 0) of
        None \<Rightarrow> (None, if stateful then 0 else lastIndex)
      | Some (b, e, caps) \<Rightarrow>
          (Some (take (e - b) (drop b s) # caps), if stateful then e else lastIndex))"

text \<open>\<open>RegExp.prototype.test\<close>.\<close>

definition regexp_test :: "pattern \<Rightarrow> nat \<Rightarrow> string \<Rightarrow> bool \<times> nat" where
  "regexp_test p lastIndex s =
     (case regexp_exec p lastIndex s of (r, li) \<Rightarrow> (r \<noteq> None, li))"

text \<open>The loop of \<open>RegExp.prototype[@@match]\<close> for a global pattern: collect the matched
  substrings, stepping over an empty match.\<close>

function match_all :: "pattern \<Rightarrow> string \<Rightarrow> nat \<Rightarrow> string list" where
  "match_all p s i =
     (case exec_from p s i of
        None \<Rightarrow> []
      | Some (b, e, caps) \<Rightarrow>
          (let m = take (e - b) (drop b s) in
           m # match_all p s (if m = [] then Suc e else e)))"
  by pat_completeness auto

termination match_all
proof (relation "measure (\<lambda>(p, s, i). Suc (length s) - i)", goal_cases)
  case 1
  show ?case by simp
next
  case (2 p s i x2 b y e caps m)
  have bounds: "exec_from q t j = Some (b', e', c') \<Longrightarrow> j \<le> b' \<and> b' \<le> length t \<and> b' \<le> e'"
    for q t j b' e' c'
  proof (induction q t j rule: exec_from.induct)
    case (1 q t j)
    show ?case
    proof (cases "rx_match_at q t j")
      case None
      with "1.prems" have ns: "\<not> rx_sticky q" and le: "\<not> length t < j"
        by (auto simp: exec_from.simps [of q t j] split: if_splits)
      from "1.prems" None ns le have "exec_from q t (Suc j) = Some (b', e', c')"
        by (simp add: exec_from.simps [of q t j])
      with "1.IH" [OF le None ns] show ?thesis by simp
    next
      case (Some r)
      with "1.prems" show ?thesis
        by (cases r) (auto simp: exec_from.simps [of q t j] split: if_splits)
    qed
  qed
  from 2 have ex: "exec_from p s i = Some (b, e, caps)" by simp
  from bounds [OF ex] have bnd: "i \<le> b" "b \<le> length s" "b \<le> e" by simp_all
  show ?case
  proof (cases "m = []")
    case True
    with bnd show ?thesis by auto
  next
    case False
    with 2 have "take (e - b) (drop b s) \<noteq> []" by simp
    then have "b < e" by (cases "e - b") auto
    with bnd False show ?thesis by auto
  qed
qed

declare match_all.simps [simp del]

text \<open>\<open>String.prototype.match\<close> on a string: without the \<open>g\<close> flag it is one \<open>exec\<close>; with
  the \<open>g\<close> flag \<open>lastIndex\<close> is set to 0, all matches are collected and \<open>lastIndex\<close> is 0
  afterwards.\<close>

definition string_match :: "pattern \<Rightarrow> nat \<Rightarrow> string \<Rightarrow> match \<times> nat" where
  "string_match p lastIndex s =
     (if rx_global p then
        (case match_all p s 0 of [] \<Rightarrow> (None, 0) | ms \<Rightarrow> (Some ms, 0))
      else regexp_exec p lastIndex s)"

section \<open>The document and the block ranges\<close>

datatype error = TypeError | RendererError

text \<open>\<open>editor.getLine(n)\<close> is \<open>undefined\<close> outside the document.\<close>

definition getLine :: "string list \<Rightarrow> int \<Rightarrow> string option" where
  "getLine ls n = (if 0 \<le> n \<and> n < int (length ls) then Some (ls ! nat n) else None)"

definition lineCount :: "string list \<Rightarrow> int" where
  "lineCount ls = int (length ls)"

text \<open>\<open>RegExp.prototype.test\<close> converts its argument to a string.\<close>

definition to_str :: "string option \<Rightarrow> string" where
  "to_str l = (case l of None \<Rightarrow> ''undefined'' | Some s \<Rightarrow> s)"

record blockRange =
  br_from :: int
  br_to :: int
  br_beginMatch :: match
  br_endMatch :: match

text \<open>The local variables of \<open>process\<close> and the \<open>lastIndex\<close> of the two patterns.\<close>

record scanState =
  meetBeginToken :: bool
  prevBeginTokenLineNumber :: int
  beginMatch :: match
  blockRangeList :: "blockRange list"
  startLastIndex :: nat
  endLastIndex :: nat

definition scan_init :: "nat \<Rightarrow> nat \<Rightarrow> scanState" where
  "scan_init bi ei =
     \<lparr>meetBeginToken = False, prevBeginTokenLineNumber = -1, beginMatch = None,
      blockRangeList = [], startLastIndex = bi, endLastIndex = ei\<rparr>"

section \<open>The range scanner of \<open>process\<close>\<close>

text \<open>One iteration of the loop \<open>for (let i = 0; i < toLine; i++)\<close>. \<open>line.match\<close> on an
  undefined line throws a TypeError; the error carries the state reached so far.\<close>

definition scan_step ::
  "pattern \<Rightarrow> pattern \<Rightarrow> string list \<Rightarrow> int \<Rightarrow> int \<Rightarrow> scanState \<Rightarrow>
     (error \<times> scanState) + scanState" where
  "scan_step bp ep ls fromLine i st =
     (let line = getLine ls i in
      if \<not> meetBeginToken st then
        (case regexp_test bp (startLastIndex st) (to_str line) of
           (True, li) \<Rightarrow>
             (case line of
                None \<Rightarrow> Inl (TypeError, st\<lparr>startLastIndex := li\<rparr>)
              | Some l \<Rightarrow>
                  (case string_match bp li l of
                     (m, li') \<Rightarrow>
                       Inr (st\<lparr>beginMatch := m, meetBeginToken := True,
                               prevBeginTokenLineNumber := i, startLastIndex := li'\<rparr>)))
         | (False, li) \<Rightarrow> Inr (st\<lparr>startLastIndex := li\<rparr>))
      else
        (case regexp_test ep (endLastIndex st) (to_str line) of
           (True, li) \<Rightarrow>
             (if fromLine \<le> i then
                (case line of
                   None \<Rightarrow> Inl (TypeError, st\<lparr>endLastIndex := li\<rparr>)
                 | Some l \<Rightarrow>
                     (case string_match ep li l of
                        (m, li') \<Rightarrow>
                          Inr (st\<lparr>blockRangeList := blockRangeList st @
                                    [\<lparr>br_from = prevBeginTokenLineNumber st, br_to = i,
                                      br_beginMatch = beginMatch st, br_endMatch = m\<rparr>],
                                  meetBeginToken := False, prevBeginTokenLineNumber := -1,
                                  endLastIndex := li'\<rparr>)))
              else Inr (st\<lparr>meetBeginToken := False, prevBeginTokenLineNumber := -1,
                           endLastIndex := li\<rparr>))
         | (False, li) \<Rightarrow> Inr (st\<lparr>endLastIndex := li\<rparr>)))"

function scan_loop ::
  "pattern \<Rightarrow> pattern \<Rightarrow> string list \<Rightarrow> int \<Rightarrow> int \<Rightarrow> int \<Rightarrow> scanState \<Rightarrow>
     (error \<times> scanState) + scanState" where
  "scan_loop bp ep ls fromLine toLine i st =
     (if i < toLine then
        (case scan_step bp ep ls fromLine i st of
           Inl e \<Rightarrow> Inl e
         | Inr st' \<Rightarrow> scan_loop bp ep ls fromLine toLine (i + 1) st')
      else Inr st)"
  by pat_completeness auto
termination
  by (relation "measure (\<lambda>(bp, ep, ls, fromLine, toLine, i, st). nat (toLine - i))") auto

declare scan_loop.simps [simp del]

text \<open>The second loop, \<open>for (let i = viewport.to; i < this.editor.lineCount(); ++i)\<close>,
  which stops at the first line that matches the end token.\<close>

function backoff_loop ::
  "pattern \<Rightarrow> string list \<Rightarrow> int \<Rightarrow> scanState \<Rightarrow> (error \<times> scanState) + scanState" where
  "backoff_loop ep ls i st =
     (if i < lineCount ls then
        (let line = getLine ls i in
         case regexp_test ep (endLastIndex st) (to_str line) of
           (True, li) \<Rightarrow>
             (case line of
                None \<Rightarrow> Inl (TypeError, st\<lparr>endLastIndex := li\<rparr>)
              | Some l \<Rightarrow>
                  (case string_match ep li l of
                     (m, li') \<Rightarrow>
                       Inr (st\<lparr>blockRangeList := blockRangeList st @
                                 [\<lparr>br_from = prevBeginTokenLineNumber st, br_to = i,
                                   br_beginMatch = beginMatch st, br_endMatch = m\<rparr>],
                               endLastIndex := li'\<rparr>)))
         | (False, li) \<Rightarrow> backoff_loop ep ls (i + 1) (st\<lparr>endLastIndex := li\<rparr>))
      else Inr st)"
  by pat_completeness auto
termination
  by (relation "measure (\<lambda>(ep, ls, i, st). nat (lineCount ls - i))") auto

declare backoff_loop.simps [simp del]

text \<open>The part of \<open>process\<close> before \<open>_markRanges\<close>: the window, the bounded scan and the
  scan of the remaining lines.\<close>

definition process_scan ::
  "pattern \<Rightarrow> pattern \<Rightarrow> string list \<Rightarrow> int \<Rightarrow> int \<Rightarrow> bool \<Rightarrow> nat \<Rightarrow> nat \<Rightarrow>
     (error \<times> scanState) + scanState" where
  "process_scan bp ep ls viewport_from viewport_to afterSetValue bi ei =
     (let fromLine = (if afterSetValue then 0 else viewport_from);
          toLine = (if afterSetValue then lineCount ls else viewport_to)
      in case scan_loop bp ep ls fromLine toLine 0 (scan_init bi ei) of
           Inl e \<Rightarrow> Inl e
         | Inr st \<Rightarrow> if meetBeginToken st then backoff_loop ep ls viewport_to st else Inr st)"

section \<open>The editor and its decorations\<close>

record pos =
  pos_line :: int
  pos_ch :: int

definition pos_less :: "pos \<Rightarrow> pos \<Rightarrow> bool" where
  "pos_less a b = (pos_line a < pos_line b \<or> (pos_line a = pos_line b \<and> pos_ch a < pos_ch b))"

text \<open>What a pass reads from the editor and never writes: the lines, the viewport, the
  cursor, and the answer of \<open>isRangeSelected(from, to, editor)\<close> for the current selection.
  \<open>isRangeSelected\<close> comes from \<open>./cm-utils\<close>; it is taken as a parameter.\<close>

record editor =
  ed_lines :: "string list"
  ed_viewport_from :: int
  ed_viewport_to :: int
  ed_cursor :: pos
  ed_isRangeSelected :: "pos \<Rightarrow> pos \<Rightarrow> bool"

text \<open>A child of a line widget's node: an element made by the renderer, or the edit
  button that \<open>setStyleAndLogical\<close> appends. Styles and hover handlers are left out.\<close>

datatype 'e dom_child = Rendered 'e | EditButton

text \<open>A text marker of the host editor. \<open>tm_id\<close> stands for the identity of the object,
  \<open>tm_from\<close> and \<open>tm_to\<close> are what \<open>marker.find()\<close> returns.\<close>

record 'e textMarker =
  tm_id :: nat
  tm_className :: string
  tm_from :: pos
  tm_to :: pos
  tm_replacedWith :: "'e option"
  tm_onclick :: bool

record 'e lineWidget =
  lw_id :: nat
  lw_line :: int
  lw_className :: string
  lw_node :: "'e dom_child list"

datatype mutation =
  MarkerAdded nat | MarkerCleared nat | WidgetAdded nat | WidgetCleared nat
  | NodeEmptied nat | NodeAppended nat

text \<open>What a pass can write: the decorations of the editor, the record of every change
  made to them, and the \<open>lastIndex\<close> of the two patterns.\<close>

record 'e state =
  st_markers :: "'e textMarker list"
  st_widgets :: "'e lineWidget list"
  st_next_id :: nat
  st_mutations :: "mutation list"
  st_startLastIndex :: nat
  st_endLastIndex :: nat

datatype 'e outcome = Done "'e state" | Threw error "'e state"

record 'e config =
  blockStartTokenRegexp :: pattern
  blockEndTokenRegex :: pattern
  renderer :: "match \<Rightarrow> match \<Rightarrow> string \<Rightarrow> int \<Rightarrow> int \<Rightarrow> 'e option"
  spanRenderer :: "'e option"
  MARKER_CLASS_NAME :: string
  clearOnClick :: bool
  renderWhenEditing :: bool

text \<open>The two renderer callbacks are functions of their arguments; \<open>None\<close> stands for a
  callback that throws.\<close>

definition lineWidgetClassName :: "'e config \<Rightarrow> string" where
  "lineWidgetClassName cfg = MARKER_CLASS_NAME cfg @ ''-line-widget''"

subsection \<open>Operations of the host editor\<close>

text \<open>\<open>findMarks(from, to)\<close> of the host looks at the lines \<open>from.line\<close> to \<open>to.line\<close> and
  reports a marker at the first of these lines that holds a part of it, unless the marker
  ends at or before \<open>from\<close> or starts at or after \<open>to\<close>. \<open>span_found\<close> is that test for the
  part of the marker on line \<open>n\<close>. The host collects the markers line by line; here
  they are reported in the order of the store, which is the same list whenever at most one
  marker is found.\<close>

definition span_found :: "pos \<Rightarrow> pos \<Rightarrow> 'e textMarker \<Rightarrow> int \<Rightarrow> bool" where
  "span_found from to m n =
     (pos_line from \<le> n \<and> n \<le> pos_line to \<and>
      pos_line (tm_from m) \<le> n \<and> n \<le> pos_line (tm_to m) \<and>
      \<not> (n = pos_line (tm_to m) \<and> n = pos_line from \<and> pos_ch (tm_to m) \<le> pos_ch from) \<and>
      \<not> (n \<noteq> pos_line (tm_from m) \<and> n \<noteq> pos_line from) \<and>
      \<not> (n = pos_line (tm_from m) \<and> n = pos_line to \<and> pos_ch to \<le> pos_ch (tm_from m)))"

definition marker_found :: "pos \<Rightarrow> pos \<Rightarrow> 'e textMarker \<Rightarrow> bool" where
  "marker_found from to m =
     (span_found from to m (pos_line (tm_from m)) \<or> span_found from to m (pos_line from))"

definition findMarks :: "'e state \<Rightarrow> pos \<Rightarrow> pos \<Rightarrow> 'e textMarker list" where
  "findMarks s from to = filter (marker_found from to) (st_markers s)"

text \<open>\<open>marker.clear()\<close> and \<open>lineWidget.clear()\<close>: nothing happens when the object is no
  longer attached.\<close>

definition clear_marker :: "nat \<Rightarrow> 'e state \<Rightarrow> 'e state" where
  "clear_marker i s =
     (if i \<in> set (map tm_id (st_markers s)) then
        s\<lparr>st_markers := filter (\<lambda>m. tm_id m \<noteq> i) (st_markers s),
          st_mutations := st_mutations s @ [MarkerCleared i]\<rparr>
      else s)"

definition clear_widget :: "nat \<Rightarrow> 'e state \<Rightarrow> 'e state" where
  "clear_widget i s =
     (if i \<in> set (map lw_id (st_widgets s)) then
        s\<lparr>st_widgets := filter (\<lambda>w. lw_id w \<noteq> i) (st_widgets s),
          st_mutations := st_mutations s @ [WidgetCleared i]\<rparr>
      else s)"

text \<open>\<open>doc.markText(from, to, options)\<close>: a new marker object; the host attaches it to the
  document only when \<open>from\<close> lies before \<open>to\<close>. The host's refusal of a replacing marker
  that partially overlaps another one is not modelled: a call that the host would refuse
  with an exception returns here.\<close>

definition markText :: "pos \<Rightarrow> pos \<Rightarrow> 'e \<Rightarrow> string \<Rightarrow> 'e state \<Rightarrow> nat \<times> 'e state" where
  "markText from to el cls s =
     (let i = st_next_id s in
      if pos_less from to then
        (i, s\<lparr>st_markers := st_markers s @
                 [\<lparr>tm_id = i, tm_className = cls, tm_from = from, tm_to = to,
                   tm_replacedWith = Some el, tm_onclick = False\<rparr>],
               st_next_id := Suc i,
               st_mutations := st_mutations s @ [MarkerAdded i]\<rparr>)
      else (i, s\<lparr>st_next_id := Suc i\<rparr>))"

text \<open>\<open>doc.addLineWidget(line, element, {className})\<close>.\<close>

definition addLineWidget :: "int \<Rightarrow> 'e dom_child list \<Rightarrow> string \<Rightarrow> 'e state \<Rightarrow> nat \<times> 'e state" where
  "addLineWidget n node cls s =
     (let i = st_next_id s in
      (i, s\<lparr>st_widgets := st_widgets s @
               [\<lparr>lw_id = i, lw_line = n, lw_className = cls, lw_node = node\<rparr>],
             st_next_id := Suc i,
             st_mutations := st_mutations s @ [WidgetAdded i]\<rparr>))"

text \<open>\<open>node.innerHTML = ''\<close> and \<open>node.appendChild(element)\<close> on the node of a widget.\<close>

definition empty_node :: "nat \<Rightarrow> 'e state \<Rightarrow> 'e state" where
  "empty_node i s =
     s\<lparr>st_widgets := map (\<lambda>w. if lw_id w = i then w\<lparr>lw_node := []\<rparr> else w) (st_widgets s),
       st_mutations := st_mutations s @ [NodeEmptied i]\<rparr>"

definition append_child :: "nat \<Rightarrow> 'e dom_child \<Rightarrow> 'e state \<Rightarrow> 'e state" where
  "append_child i c s =
     s\<lparr>st_widgets := map (\<lambda>w. if lw_id w = i then w\<lparr>lw_node := lw_node w @ [c]\<rparr> else w)
                         (st_widgets s),
       st_mutations := st_mutations s @ [NodeAppended i]\<rparr>"

subsection \<open>Helpers of \<open>./cm-utils\<close>\<close>

text \<open>Modelled from the spec: \<open>findLineWidgetAtLine(editor, line, className)\<close> of
  \<open>./cm-utils\<close> is not among the sources. The spec describes it as the lookup of widgets at
  a line, filtered by the class tag: the first widget at that line with that class name,
  if there is one.\<close>

definition findLineWidgetAtLine :: "'e state \<Rightarrow> int \<Rightarrow> string \<Rightarrow> 'e lineWidget option" where
  "findLineWidgetAtLine s n cls =
     find (\<lambda>w. lw_line w = n \<and> lw_className w = cls) (st_widgets s)"

text \<open>Modelled from the spec: \<open>isCursorOutRange(cursor, from, to)\<close> of \<open>./cm-utils\<close> is not
  among the sources. The spec defines \<open>cursorOutOfRange\<close> as: the cursor is outside
  \<open>[fromLine, toLine]\<close>.\<close>

definition isCursorOutRange :: "pos \<Rightarrow> pos \<Rightarrow> pos \<Rightarrow> bool" where
  "isCursorOutRange cursor from to =
     (pos_line cursor < pos_line from \<or> pos_line to < pos_line cursor)"

section \<open>The reconciler \<open>_markRanges\<close>\<close>

text \<open>The callback given to \<open>findMarks(from, to).find(...)\<close>. \<open>existingMarker\<close> and
  \<open>existingLineWidget\<close> are variables of the enclosing loop body: the callback reads and
  assigns them, so they are passed in and returned together with the state.\<close>

definition check_mark ::
  "'e config \<Rightarrow> pos \<Rightarrow> pos \<Rightarrow> 'e textMarker \<Rightarrow> nat option \<times> nat option \<times> 'e state \<Rightarrow>
     nat option \<times> nat option \<times> 'e state" where
  "check_mark cfg from to marker acc =
     (case acc of
        (existingMarker, existingLineWidget, s) \<Rightarrow>
          (if tm_className marker = MARKER_CLASS_NAME cfg then
             (let w = map_option lw_id
                        (findLineWidgetAtLine s (pos_line to) (lineWidgetClassName cfg));
                  em = (if w \<noteq> None then Some (tm_id marker) else existingMarker)
              in if pos_line (tm_from marker) \<noteq> pos_line from \<or>
                    pos_line (tm_to marker) \<noteq> pos_line to then
                   (em, w, (case w of
                              None \<Rightarrow> clear_marker (tm_id marker) s
                            | Some wi \<Rightarrow> clear_widget wi (clear_marker (tm_id marker) s)))
                 else if em = None then (em, w, clear_marker (tm_id marker) s)
                 else (em, w, s))
           else (existingMarker, existingLineWidget, s)))"

text \<open>The callback returns nothing, so \<open>find\<close> calls it on every marker in turn.\<close>

fun check_marks ::
  "'e config \<Rightarrow> pos \<Rightarrow> pos \<Rightarrow> 'e textMarker list \<Rightarrow> nat option \<times> nat option \<times> 'e state \<Rightarrow>
     nat option \<times> nat option \<times> 'e state" where
  "check_marks cfg from to [] acc = acc"
| "check_marks cfg from to (marker # ms) acc =
     check_marks cfg from to ms (check_mark cfg from to marker acc)"

text \<open>The loop \<open>for (let i = from.line; i < to.line; i++)\<close> that clears a line widget found
  inside the range.\<close>

fun sweep_widgets :: "'e config \<Rightarrow> int list \<Rightarrow> 'e state \<Rightarrow> 'e state" where
  "sweep_widgets cfg [] s = s"
| "sweep_widgets cfg (i # is) s =
     sweep_widgets cfg is
       (case findLineWidgetAtLine s i (lineWidgetClassName cfg) of
          None \<Rightarrow> s
        | Some lineWidget \<Rightarrow> clear_widget (lw_id lineWidget) s)"

text \<open>\<open>blockContentLines.join('\n')\<close>; \<open>join\<close> writes an undefined element as the empty
  string.\<close>

fun join_lines :: "string option list \<Rightarrow> string" where
  "join_lines [] = []"
| "join_lines [l] = (case l of None \<Rightarrow> [] | Some t \<Rightarrow> t)"
| "join_lines (l # ls) = (case l of None \<Rightarrow> [] | Some t \<Rightarrow> t) @ CHR 0x0A # join_lines ls"

definition blockContent :: "editor \<Rightarrow> int \<Rightarrow> int \<Rightarrow> string" where
  "blockContent ed fromLine toLine =
     join_lines (map (getLine (ed_lines ed)) [fromLine + 1 .. toLine - 1])"

text \<open>\<open>setStyleAndLogical\<close>: the click handler of the marker element, when \<open>clearOnClick\<close>
  is set, and the edit button appended to the wrapper of the line widget.\<close>

definition setStyleAndLogical :: "'e config \<Rightarrow> nat \<Rightarrow> nat \<Rightarrow> 'e state \<Rightarrow> 'e state" where
  "setStyleAndLogical cfg textMarker lineWidget s =
     s\<lparr>st_markers := map (\<lambda>m. if tm_id m = textMarker then m\<lparr>tm_onclick := clearOnClick cfg\<rparr>
                               else m) (st_markers s),
       st_widgets := map (\<lambda>w. if lw_id w = lineWidget then w\<lparr>lw_node := lw_node w @ [EditButton]\<rparr>
                               else w) (st_widgets s)\<rparr>"

text \<open>The branch \<open>if (cursorOutRange)\<close> of the loop body, reached with the state after
  the sweep.\<close>

definition cursor_outside ::
  "'e config \<Rightarrow> blockRange \<Rightarrow> pos \<Rightarrow> pos \<Rightarrow> string \<Rightarrow> nat option \<Rightarrow> 'e state \<Rightarrow> 'e outcome" where
  "cursor_outside cfg blockRange from to content existingMarker s2 =
     (case existingMarker of
        Some m \<Rightarrow> Done s2
      | None \<Rightarrow>
          (let s3 = (case findLineWidgetAtLine s2 (pos_line to) (lineWidgetClassName cfg) of
                       None \<Rightarrow> s2
                     | Some w \<Rightarrow> clear_widget (lw_id w) s2)
           in case spanRenderer cfg of
                None \<Rightarrow> Threw RendererError s3
              | Some markerEl \<Rightarrow>
                  (case markText from to markerEl (MARKER_CLASS_NAME cfg) s3 of
                     (textMarker, s4) \<Rightarrow>
                       (case renderer cfg (br_beginMatch blockRange) (br_endMatch blockRange)
                               content (pos_line from) (pos_line to) of
                          None \<Rightarrow> Threw RendererError s4
                        | Some element \<Rightarrow>
                            (case addLineWidget (pos_line to) [Rendered element]
                                    (lineWidgetClassName cfg) s4 of
                               (lineWidget, s5) \<Rightarrow>
                                 Done (setStyleAndLogical cfg textMarker lineWidget s5))))))"

text \<open>The \<open>else\<close> branch: the cursor is inside the range.\<close>

definition cursor_inside ::
  "'e config \<Rightarrow> blockRange \<Rightarrow> pos \<Rightarrow> pos \<Rightarrow> string \<Rightarrow> nat option \<Rightarrow> 'e state \<Rightarrow> 'e outcome" where
  "cursor_inside cfg blockRange from to content existingMarker s2 =
     (let s3 = (case existingMarker of None \<Rightarrow> s2 | Some m \<Rightarrow> clear_marker m s2) in
      case findLineWidgetAtLine s3 (pos_line to) (lineWidgetClassName cfg) of
        Some w \<Rightarrow>
          (if renderWhenEditing cfg then
             (let s4 = empty_node (lw_id w) s3 in
              case renderer cfg (br_beginMatch blockRange) (br_endMatch blockRange)
                      content (pos_line from) (pos_line to) of
                None \<Rightarrow> Threw RendererError s4
              | Some element \<Rightarrow> Done (append_child (lw_id w) (Rendered element) s4))
           else Done (clear_widget (lw_id w) s3))
      | None \<Rightarrow>
          (if renderWhenEditing cfg then
             (case renderer cfg (br_beginMatch blockRange) (br_endMatch blockRange)
                     content (pos_line from) (pos_line to) of
                None \<Rightarrow> Threw RendererError s3
              | Some element \<Rightarrow>
                  Done (snd (addLineWidget (pos_line to) [Rendered element]
                               (lineWidgetClassName cfg) s3)))
           else Done s3))"

text \<open>The branch \<open>if (selected && cursorOutRange)\<close>; \<open>existingLineWidget.clear()\<close> on an
  undefined \<open>existingLineWidget\<close> throws a TypeError.\<close>

definition selected_outside :: "nat option \<Rightarrow> nat option \<Rightarrow> 'e state \<Rightarrow> 'e outcome" where
  "selected_outside existingMarker existingLineWidget s2 =
     (case existingMarker of
        None \<Rightarrow> Done s2
      | Some m \<Rightarrow>
          (case existingLineWidget of
             None \<Rightarrow> Threw TypeError (clear_marker m s2)
           | Some w \<Rightarrow> Done (clear_widget w (clear_marker m s2))))"

text \<open>The body of the loop \<open>for (const blockRange of blockRangeList)\<close>. Reading \<open>length\<close>
  of an undefined line throws a TypeError.\<close>

definition mark_range :: "'e config \<Rightarrow> editor \<Rightarrow> blockRange \<Rightarrow> 'e state \<Rightarrow> 'e outcome" where
  "mark_range cfg ed blockRange s =
     (case getLine (ed_lines ed) (br_to blockRange) of
        None \<Rightarrow> Threw TypeError s
      | Some toText \<Rightarrow>
          (let from = \<lparr>pos_line = br_from blockRange, pos_ch = 0\<rparr>;
               to = \<lparr>pos_line = br_to blockRange, pos_ch = int (length toText)\<rparr>;
               cursorOutRange = isCursorOutRange (ed_cursor ed) from to;
               selected = ed_isRangeSelected ed from to
           in case check_marks cfg from to (findMarks s from to) (None, None, s) of
                (existingMarker, existingLineWidget, s1) \<Rightarrow>
                  (let s2 = sweep_widgets cfg [pos_line from .. pos_line to - 1] s1;
                       content = blockContent ed (pos_line from) (pos_line to)
                   in if selected \<and> cursorOutRange then
                        selected_outside existingMarker existingLineWidget s2
                      else if cursorOutRange then
                        cursor_outside cfg blockRange from to content existingMarker s2
                      else cursor_inside cfg blockRange from to content existingMarker s2)))"

fun markRanges :: "'e config \<Rightarrow> editor \<Rightarrow> blockRange list \<Rightarrow> 'e state \<Rightarrow> 'e outcome" where
  "markRanges cfg ed [] s = Done s"
| "markRanges cfg ed (blockRange # rs) s =
     (case mark_range cfg ed blockRange s of
        Done s' \<Rightarrow> markRanges cfg ed rs s'
      | Threw e s' \<Rightarrow> Threw e s')"

section \<open>The entry point \<open>process\<close>\<close>

definition process :: "'e config \<Rightarrow> editor \<Rightarrow> bool \<Rightarrow> 'e state \<Rightarrow> 'e outcome" where
  "process cfg ed afterSetValue s =
     (case process_scan (blockStartTokenRegexp cfg) (blockEndTokenRegex cfg) (ed_lines ed)
             (ed_viewport_from ed) (ed_viewport_to ed) afterSetValue
             (st_startLastIndex s) (st_endLastIndex s) of
        Inl (e, st) \<Rightarrow>
          Threw e (s\<lparr>st_startLastIndex := startLastIndex st, st_endLastIndex := endLastIndex st\<rparr>)
      | Inr st \<Rightarrow>
          (let s' = s\<lparr>st_startLastIndex := startLastIndex st,
                      st_endLastIndex := endLastIndex st\<rparr>
           in if blockRangeList st = [] then Done s'
              else markRanges cfg ed (blockRangeList st) s'))"

section \<open>Literal patterns and the sample document\<close>

text \<open>A pattern that matches the literal text \<open>w\<close> anywhere in a line, without captures,
  such as \<open>/END>>>/\<close> or, with the flag, \<open>/END>>>/g\<close>.\<close>

definition literal_at :: "string \<Rightarrow> string \<Rightarrow> nat \<Rightarrow> (nat \<times> string list) option" where
  "literal_at w s i = (if take (length w) (drop i s) = w then Some (length w, []) else None)"

definition literal :: "string \<Rightarrow> bool \<Rightarrow> pattern" where
  "literal w g = \<lparr>rx_match_at = literal_at w, rx_global = g, rx_sticky = False\<rparr>"

definition sample_doc :: "string list" where
  "sample_doc = [''pre'', ''<<<BEGIN'', ''a'', ''b'', ''END>>>'', ''post'']"

text \<open>A configuration whose renderer returns a record of the arguments it was called
  with, so that the node of a widget shows what was passed to the renderer.\<close>

type_synonym call = "(match \<times> match \<times> string \<times> int \<times> int) option"

definition recording_config :: "pattern \<Rightarrow> pattern \<Rightarrow> bool \<Rightarrow> call config" where
  "recording_config bp ep rwe =
     \<lparr>blockStartTokenRegexp = bp, blockEndTokenRegex = ep,
      renderer = (\<lambda>bm em content fromLine toLine. Some (Some (bm, em, content, fromLine, toLine))),
      spanRenderer = Some None, MARKER_CLASS_NAME = ''mk'',
      clearOnClick = False, renderWhenEditing = rwe\<rparr>"

text \<open>An editor without a selection, with the cursor at the start of line \<open>c\<close>.\<close>

definition editor_of :: "string list \<Rightarrow> int \<Rightarrow> int \<Rightarrow> int \<Rightarrow> editor" where
  "editor_of ls vf vt c =
     \<lparr>ed_lines = ls, ed_viewport_from = vf, ed_viewport_to = vt,
      ed_cursor = \<lparr>pos_line = c, pos_ch = 0\<rparr>, ed_isRangeSelected = (\<lambda>from to. False)\<rparr>"

definition no_decorations :: "nat \<Rightarrow> nat \<Rightarrow> 'e state" where
  "no_decorations bi ei =
     \<lparr>st_markers = [], st_widgets = [], st_next_id = 0, st_mutations = [],
      st_startLastIndex = bi, st_endLastIndex = ei\<rparr>"

text \<open>A document in which a block is closed and a later begin token is left open.\<close>

definition open_tail_doc :: "string list" where
  "open_tail_doc = [''pre'', ''<<<BEGIN'', ''a'', ''END>>>'', ''post'', ''<<<BEGIN'']"

text \<open>A store that still holds the decoration pair of a block on the lines 2 to 4: a
  marker of the class \<open>mk\<close> and its line widget on line 4.\<close>

definition stale_state :: "call state" where
  "stale_state =
     \<lparr>st_markers =
        [\<lparr>tm_id = 0, tm_className = ''mk'', tm_from = \<lparr>pos_line = 2, pos_ch = 0\<rparr>,
          tm_to = \<lparr>pos_line = 4, pos_ch = 6\<rparr>, tm_replacedWith = Some None,
          tm_onclick = False\<rparr>],
      st_widgets =
        [\<lparr>lw_id = 1, lw_line = 4, lw_className = ''mk-line-widget'',
          lw_node = [Rendered None, EditButton]\<rparr>],
      st_next_id = 2, st_mutations = [], st_startLastIndex = 0, st_endLastIndex = 0\<rparr>"

text \<open>A store with decorations of another kind next to those of the engine.\<close>

definition mixed_state :: "call state" where
  "mixed_state =
     \<lparr>st_markers =
        [\<lparr>tm_id = 0, tm_className = ''mk'', tm_from = \<lparr>pos_line = 2, pos_ch = 0\<rparr>,
          tm_to = \<lparr>pos_line = 4, pos_ch = 6\<rparr>, tm_replacedWith = Some None,
          tm_onclick = False\<rparr>,
         \<lparr>tm_id = 2, tm_className = ''other'', tm_from = \<lparr>pos_line = 1, pos_ch = 0\<rparr>,
          tm_to = \<lparr>pos_line = 4, pos_ch = 6\<rparr>, tm_replacedWith = None,
          tm_onclick = False\<rparr>],
      st_widgets =
        [\<lparr>lw_id = 3, lw_line = 4, lw_className = ''other-line-widget'', lw_node = []\<rparr>,
         \<lparr>lw_id = 1, lw_line = 4, lw_className = ''mk-line-widget'',
          lw_node = [Rendered None, EditButton]\<rparr>],
      st_next_id = 4, st_mutations = [], st_startLastIndex = 0, st_endLastIndex = 0\<rparr>"



text \<open>The store after the sample block has been collapsed: its marker and its widget.\<close>

definition collapsed_state :: "call state" where
  "collapsed_state =
     \<lparr>st_markers =
        [\<lparr>tm_id = 0, tm_className = ''mk'', tm_from = \<lparr>pos_line = 1, pos_ch = 0\<rparr>,
          tm_to = \<lparr>pos_line = 4, pos_ch = 6\<rparr>, tm_replacedWith = Some None,
          tm_onclick = False\<rparr>],
      st_widgets =
        [\<lparr>lw_id = 1, lw_line = 4, lw_className = ''mk-line-widget'',
          lw_node = [Rendered None, EditButton]\<rparr>],
      st_next_id = 2, st_mutations = [], st_startLastIndex = 0, st_endLastIndex = 0\<rparr>"

text \<open>A store that holds two markers of the engine on the sample block, and one widget.\<close>

definition doubled_state :: "call state" where
  "doubled_state =
     \<lparr>st_markers =
        [\<lparr>tm_id = 0, tm_className = ''mk'', tm_from = \<lparr>pos_line = 1, pos_ch = 0\<rparr>,
          tm_to = \<lparr>pos_line = 4, pos_ch = 6\<rparr>, tm_replacedWith = Some None,
          tm_onclick = False\<rparr>,
         \<lparr>tm_id = 2, tm_className = ''mk'', tm_from = \<lparr>pos_line = 1, pos_ch = 0\<rparr>,
          tm_to = \<lparr>pos_line = 4, pos_ch = 6\<rparr>, tm_replacedWith = Some None,
          tm_onclick = False\<rparr>],
      st_widgets =
        [\<lparr>lw_id = 1, lw_line = 4, lw_className = ''mk-line-widget'',
          lw_node = [Rendered None, EditButton]\<rparr>],
      st_next_id = 3, st_mutations = [], st_startLastIndex = 0, st_endLastIndex = 0\<rparr>"

definition sample_range :: blockRange where
  "sample_range =
     \<lparr>br_from = 1, br_to = 4, br_beginMatch = Some [''<<<BEGIN''],
      br_endMatch = Some [''END>>>'']\<rparr>"

section \<open>Notions used in the statements\<close>

text \<open>A pattern without the flags \<open>g\<close> and \<open>y\<close> neither reads nor writes \<open>lastIndex\<close>.\<close>

definition stateless :: "pattern \<Rightarrow> bool" where
  "stateless p = (\<not> rx_global p \<and> \<not> rx_sticky p)"

text \<open>Block ranges that are pairwise disjoint and increasing, each one with its begin line
  strictly above its end line.\<close>

definition well_separated :: "blockRange list \<Rightarrow> bool" where
  "well_separated rs =
     (sorted_wrt (\<lambda>a b. br_to a < br_from b) rs \<and> list_all (\<lambda>r. br_from r < br_to r) rs)"

text \<open>The invariant of the bounded scan before line \<open>i\<close>.\<close>

definition scan_inv :: "int \<Rightarrow> scanState \<Rightarrow> bool" where
  "scan_inv i st =
     (well_separated (blockRangeList st) \<and>
      list_all (\<lambda>r. br_to r < i) (blockRangeList st) \<and>
      (meetBeginToken st \<longrightarrow>
         prevBeginTokenLineNumber st < i \<and>
         list_all (\<lambda>r. br_to r < prevBeginTokenLineNumber st) (blockRangeList st)))"

text \<open>Two scanner states that differ only in the ranges that end above \<open>fromLine\<close>.\<close>

definition same_scan :: "int \<Rightarrow> scanState \<Rightarrow> scanState \<Rightarrow> bool" where
  "same_scan fromLine st st0 =
     (meetBeginToken st = meetBeginToken st0 \<and>
      prevBeginTokenLineNumber st = prevBeginTokenLineNumber st0 \<and>
      beginMatch st = beginMatch st0 \<and>
      startLastIndex st = startLastIndex st0 \<and>
      endLastIndex st = endLastIndex st0 \<and>
      blockRangeList st = filter (\<lambda>r. fromLine \<le> br_to r) (blockRangeList st0))"

text \<open>The state in which a pass ends, whether it returns or throws.\<close>

fun outcome_state :: "'e outcome \<Rightarrow> 'e state" where
  "outcome_state (Done s) = s"
| "outcome_state (Threw e s) = s"

text \<open>The decorations that do not bear the identifiers of the engine.\<close>

definition foreign_markers :: "'e config \<Rightarrow> 'e state \<Rightarrow> 'e textMarker list" where
  "foreign_markers cfg s = filter (\<lambda>m. tm_className m \<noteq> MARKER_CLASS_NAME cfg) (st_markers s)"

definition foreign_widgets :: "'e config \<Rightarrow> 'e state \<Rightarrow> 'e lineWidget list" where
  "foreign_widgets cfg s =
     filter (\<lambda>w. lw_className w \<noteq> lineWidgetClassName cfg) (st_widgets s)"

text \<open>The identities of the marker objects and of the widget objects are distinct, and
  \<open>st_next_id\<close> is the identity of no object yet.\<close>

definition wf_state :: "'e state \<Rightarrow> bool" where
  "wf_state s =
     (distinct (map tm_id (st_markers s)) \<and> distinct (map lw_id (st_widgets s)) \<and>
      list_all (\<lambda>m. tm_id m < st_next_id s) (st_markers s) \<and>
      list_all (\<lambda>w. lw_id w < st_next_id s) (st_widgets s))"

text \<open>Every marker, or widget, with the identity \<open>i\<close> bears the identifier of the engine.\<close>

definition marker_owned :: "'e config \<Rightarrow> 'e state \<Rightarrow> nat \<Rightarrow> bool" where
  "marker_owned cfg s i =
     list_all (\<lambda>m. tm_id m = i \<longrightarrow> tm_className m = MARKER_CLASS_NAME cfg) (st_markers s)"

definition widget_owned :: "'e config \<Rightarrow> 'e state \<Rightarrow> nat \<Rightarrow> bool" where
  "widget_owned cfg s i =
     list_all (\<lambda>w. lw_id w = i \<longrightarrow> lw_className w = lineWidgetClassName cfg) (st_widgets s)"

text \<open>From \<open>s\<close> to \<open>s'\<close> the decorations of other kinds are unchanged.\<close>

definition step_ok :: "'e config \<Rightarrow> 'e state \<Rightarrow> 'e state \<Rightarrow> bool" where
  "step_ok cfg s s' =
     (wf_state s' \<and>
      foreign_markers cfg s' = foreign_markers cfg s \<and>
      foreign_widgets cfg s' = foreign_widgets cfg s \<and>
      (\<forall>i. marker_owned cfg s i \<longrightarrow> marker_owned cfg s' i) \<and>
      (\<forall>i. widget_owned cfg s i \<longrightarrow> widget_owned cfg s' i))"

text \<open>What the reconciler knows about the two variables of the loop body.\<close>

definition acc_owned :: "'e config \<Rightarrow> nat option \<times> nat option \<times> 'e state \<Rightarrow> bool" where
  "acc_owned cfg acc =
     (case acc of
        (em, ew, s) \<Rightarrow>
          wf_state s \<and> (case em of None \<Rightarrow> True | Some i \<Rightarrow> marker_owned cfg s i) \<and>
          (case ew of None \<Rightarrow> True | Some i \<Rightarrow> widget_owned cfg s i))"

text \<open>The identities of the line widgets in the store.\<close>

definition widget_ids :: "'e state \<Rightarrow> nat set" where
  "widget_ids s = set (map lw_id (st_widgets s))"

text \<open>The markers with the class tag that \<open>findMarks(from, to)\<close> reports, and the line
  widgets with the derived class name on line \<open>n\<close>.\<close>

definition tagged_found :: "'e config \<Rightarrow> 'e state \<Rightarrow> pos \<Rightarrow> pos \<Rightarrow> 'e textMarker list" where
  "tagged_found cfg s from to =
     filter (\<lambda>m. tm_className m = MARKER_CLASS_NAME cfg) (findMarks s from to)"

definition class_widgets_at :: "'e config \<Rightarrow> 'e state \<Rightarrow> int \<Rightarrow> 'e lineWidget list" where
  "class_widgets_at cfg s n =
     filter (\<lambda>w. lw_line w = n \<and> lw_className w = lineWidgetClassName cfg) (st_widgets s)"

text \<open>The positions \<open>from\<close> and \<open>to\<close> that the loop body computes for a block range.\<close>

definition from_pos :: "blockRange \<Rightarrow> pos" where
  "from_pos r = \<lparr>pos_line = br_from r, pos_ch = 0\<rparr>"

definition to_pos :: "editor \<Rightarrow> blockRange \<Rightarrow> pos" where
  "to_pos ed r =
     \<lparr>pos_line = br_to r,
      pos_ch = (case getLine (ed_lines ed) (br_to r) of None \<Rightarrow> 0 | Some t \<Rightarrow> int (length t))\<rparr>"

text \<open>The marker spans exactly the lines of the block range.\<close>

definition span_matches :: "blockRange \<Rightarrow> 'e textMarker \<Rightarrow> bool" where
  "span_matches r m = (pos_line (tm_from m) = br_from r \<and> pos_line (tm_to m) = br_to r)"

text \<open>No decoration of the engine lies on the block \<open>r\<close>.\<close>

definition clean :: "'e config \<Rightarrow> editor \<Rightarrow> blockRange \<Rightarrow> 'e state \<Rightarrow> bool" where
  "clean cfg ed r s =
     (tagged_found cfg s (from_pos r) (to_pos ed r) = [] \<and>
      list_all (\<lambda>n. class_widgets_at cfg s n = []) [br_from r .. br_to r])"

text \<open>The decorations of the engine on the block \<open>r\<close> are those that the state selection
  of the loop body leaves for the current cursor and selection.\<close>

definition settled :: "'e config \<Rightarrow> editor \<Rightarrow> blockRange \<Rightarrow> 'e state \<Rightarrow> bool" where
  "settled cfg ed r s =
     (getLine (ed_lines ed) (br_to r) \<noteq> None \<and>
      list_all (\<lambda>n. class_widgets_at cfg s n = []) [br_from r .. br_to r - 1] \<and>
      (if ed_isRangeSelected ed (from_pos r) (to_pos ed r) \<and>
          isCursorOutRange (ed_cursor ed) (from_pos r) (to_pos ed r)
       then tagged_found cfg s (from_pos r) (to_pos ed r) = []
       else if isCursorOutRange (ed_cursor ed) (from_pos r) (to_pos ed r)
       then (\<exists>m. tagged_found cfg s (from_pos r) (to_pos ed r) = [m] \<and> span_matches r m) \<and>
            class_widgets_at cfg s (br_to r) \<noteq> []
       else tagged_found cfg s (from_pos r) (to_pos ed r) = [] \<and>
            (if renderWhenEditing cfg
             then (\<exists>w element.
                     class_widgets_at cfg s (br_to r) = [w] \<and>
                     lw_node w = [Rendered element] \<and>
                     renderer cfg (br_beginMatch r) (br_endMatch r)
                       (blockContent ed (br_from r) (br_to r)) (br_from r) (br_to r)
                     = Some element)
             else class_widgets_at cfg s (br_to r) = [])))"

text \<open>Two stores show the same decorations of the engine on the block \<open>r\<close>.\<close>

definition same_view :: "'e config \<Rightarrow> editor \<Rightarrow> blockRange \<Rightarrow> 'e state \<Rightarrow> 'e state \<Rightarrow> bool" where
  "same_view cfg ed r s s' =
     (tagged_found cfg s' (from_pos r) (to_pos ed r)
        = tagged_found cfg s (from_pos r) (to_pos ed r) \<and>
      list_all (\<lambda>n. class_widgets_at cfg s' n = class_widgets_at cfg s n)
        [br_from r .. br_to r])"

text \<open>Two block ranges without a common line.\<close>

definition apart :: "blockRange \<Rightarrow> blockRange \<Rightarrow> bool" where
  "apart r r' = (br_to r < br_from r' \<or> br_to r' < br_from r)"

text \<open>From \<open>s\<close> to \<open>s'\<close> only markers on the lines of \<open>r\<close> and widgets on its last line
  have been added.\<close>

definition added :: "'e config \<Rightarrow> editor \<Rightarrow> blockRange \<Rightarrow> 'e state \<Rightarrow> 'e state \<Rightarrow> bool" where
  "added cfg ed r s s' =
     (\<exists>ms ws.
        st_markers s' = st_markers s @ ms \<and> st_widgets s' = st_widgets s @ ws \<and>
        list_all (\<lambda>m. pos_line (tm_from m) = br_from r \<and> pos_line (tm_to m) = br_to r) ms \<and>
        list_all (\<lambda>w. lw_line w = br_to r) ws \<and>
        st_startLastIndex s' = st_startLastIndex s \<and> st_endLastIndex s' = st_endLastIndex s)"

text \<open>The loop body of the bounded scan, run on the lines of a list one after the other.\<close>

fun scan_lines ::
  "pattern \<Rightarrow> pattern \<Rightarrow> string list \<Rightarrow> int \<Rightarrow> int list \<Rightarrow> scanState \<Rightarrow>
     (error \<times> scanState) + scanState" where
  "scan_lines bp ep ls fromLine [] st = Inr st"
| "scan_lines bp ep ls fromLine (i # is) st =
     (case scan_step bp ep ls fromLine i st of
        Inl e \<Rightarrow> Inl e
      | Inr st' \<Rightarrow> scan_lines bp ep ls fromLine is st')"

text \<open>Every marker with the identity \<open>i\<close> is one that \<open>findMarks(from, to)\<close> reports, and
  every widget with the identity \<open>i\<close> sits on a line of the block.\<close>

definition marker_hit :: "pos \<Rightarrow> pos \<Rightarrow> 'e state \<Rightarrow> nat \<Rightarrow> bool" where
  "marker_hit f t s i = (\<forall>m\<in>set (st_markers s). tm_id m = i \<longrightarrow> marker_found f t m)"

definition widget_hit :: "pos \<Rightarrow> pos \<Rightarrow> 'e state \<Rightarrow> nat \<Rightarrow> bool" where
  "widget_hit f t s i =
     (\<forall>w\<in>set (st_widgets s). lw_id w = i \<longrightarrow> pos_line f \<le> lw_line w \<and> lw_line w \<le> pos_line t)"

text \<open>From \<open>s\<close> to \<open>s'\<close> only the block between \<open>f\<close> and \<open>t\<close> has been worked on: the
  widgets on the other lines and the markers that \<open>findMarks(f, t)\<close> does not report are
  the same, and a marker that was not in the store before spans from \<open>f\<close> to \<open>t\<close>.\<close>

definition local_step :: "pos \<Rightarrow> pos \<Rightarrow> 'e state \<Rightarrow> 'e state \<Rightarrow> bool" where
  "local_step f t s s' =
     (wf_state s' \<and> st_next_id s \<le> st_next_id s' \<and>
      st_startLastIndex s' = st_startLastIndex s \<and> st_endLastIndex s' = st_endLastIndex s \<and>
      filter (\<lambda>w. lw_line w < pos_line f \<or> pos_line t < lw_line w) (st_widgets s') =
      filter (\<lambda>w. lw_line w < pos_line f \<or> pos_line t < lw_line w) (st_widgets s) \<and>
      filter (\<lambda>m. \<not> marker_found f t m) (st_markers s') =
      filter (\<lambda>m. \<not> marker_found f t m) (st_markers s) \<and>
      (\<forall>m\<in>set (st_markers s'). m \<in> set (st_markers s) \<or> (tm_from m = f \<and> tm_to m = t)))"

text \<open>What is known about the two variables of the loop body while the block is worked
  on.\<close>

definition acc_local :: "pos \<Rightarrow> pos \<Rightarrow> nat option \<times> nat option \<times> 'e state \<Rightarrow> bool" where
  "acc_local f t acc =
     (case acc of
        (em, ew, s) \<Rightarrow>
          wf_state s \<and> (case em of None \<Rightarrow> True | Some i \<Rightarrow> marker_hit f t s i) \<and>
          (case ew of None \<Rightarrow> True | Some i \<Rightarrow> widget_hit f t s i))"

text \<open>From \<open>s\<close> to \<open>s'\<close> the decorations of the engine on the block \<open>r\<close> have been left
  alone: no marker of the engine has come to the block and none that spans exactly its
  lines has gone, the widgets of the engine on its lines are the same, and no marker that
  spans exactly its lines has been created.\<close>

definition undisturbed ::
  "'e config \<Rightarrow> editor \<Rightarrow> blockRange \<Rightarrow> 'e state \<Rightarrow> 'e state \<Rightarrow> bool" where
  "undisturbed cfg ed r s s' =
     (wf_state s' \<and> st_next_id s \<le> st_next_id s' \<and>
      st_startLastIndex s' = st_startLastIndex s \<and> st_endLastIndex s' = st_endLastIndex s \<and>
      set (tagged_found cfg s' (from_pos r) (to_pos ed r))
        \<subseteq> set (tagged_found cfg s (from_pos r) (to_pos ed r)) \<and>
      (\<forall>m\<in>set (tagged_found cfg s (from_pos r) (to_pos ed r)).
         span_matches r m \<longrightarrow> m \<in> set (tagged_found cfg s' (from_pos r) (to_pos ed r))) \<and>
      (\<forall>n. br_from r \<le> n \<and> n \<le> br_to r \<longrightarrow>
           class_widgets_at cfg s' n = class_widgets_at cfg s n) \<and>
      (\<forall>m\<in>set (st_markers s'). span_matches r m \<longrightarrow> m \<in> set (st_markers s)))"

text \<open>The store satisfies the invariant of the data model on the block \<open>r\<close>: at most one
  marker of the engine on the block and at most one widget of the engine on each of its
  lines. And it is not in the one situation in which the check of the existing decoration
  takes a cleared pair for an existing one: the cursor outside the block, the block not
  selected, a widget of the engine on the last line and a marker of the engine on the
  block that does not span exactly its lines.\<close>

definition calm :: "'e config \<Rightarrow> editor \<Rightarrow> blockRange \<Rightarrow> 'e state \<Rightarrow> bool" where
  "calm cfg ed r s =
     (length (tagged_found cfg s (from_pos r) (to_pos ed r)) \<le> 1 \<and>
      list_all (\<lambda>n. length (class_widgets_at cfg s n) \<le> 1) [br_from r .. br_to r] \<and>
      (isCursorOutRange (ed_cursor ed) (from_pos r) (to_pos ed r) \<and>
       \<not> ed_isRangeSelected ed (from_pos r) (to_pos ed r) \<and>
       class_widgets_at cfg s (br_to r) \<noteq> [] \<longrightarrow>
         list_all (span_matches r) (tagged_found cfg s (from_pos r) (to_pos ed r))))"

text \<open>The in-place rebuild that a pass performs for the block \<open>r\<close> in the store \<open>s\<close>: with
  \<open>renderWhenEditing\<close> set and the cursor inside the block, the node of the widget found
  on the last line is emptied and refilled.\<close>

definition rebuilds_of :: "'e config \<Rightarrow> editor \<Rightarrow> 'e state \<Rightarrow> blockRange \<Rightarrow> mutation list" where
  "rebuilds_of cfg ed s r =
     (if renderWhenEditing cfg \<and> \<not> isCursorOutRange (ed_cursor ed) (from_pos r) (to_pos ed r)
      then (case class_widgets_at cfg s (br_to r) of
              [] \<Rightarrow> []
            | w # ws \<Rightarrow> [NodeEmptied (lw_id w), NodeAppended (lw_id w)])
      else [])"

section \<open>Evaluation on concrete inputs\<close>

lemmas scan_simps = process_scan_def scan_loop.simps scan_step_def scan_init_def
  backoff_loop.simps regexp_test_def regexp_exec_def exec_from.simps string_match_def
  match_all.simps literal_def literal_at_def getLine_def lineCount_def to_str_def

lemmas mark_simps = mark_range_def check_mark_def cursor_outside_def cursor_inside_def
  selected_outside_def findMarks_def marker_found_def span_found_def clear_marker_def
  clear_widget_def markText_def addLineWidget_def empty_node_def append_child_def
  findLineWidgetAtLine_def isCursorOutRange_def lineWidgetClassName_def
  setStyleAndLogical_def blockContent_def pos_less_def getLine_def upto.simps

lemmas sample_simps = recording_config_def editor_of_def no_decorations_def

section \<open>Discovery on the sample document\<close>

lemma sample_scan:
  "process_scan (literal ''<<<BEGIN'' False) (literal ''END>>>'' False) sample_doc vf vt True bi ei
   = Inr \<lparr>meetBeginToken = False, prevBeginTokenLineNumber = - 1,
          beginMatch = Some [''<<<BEGIN''],
          blockRangeList =
            [\<lparr>br_from = 1, br_to = 4, br_beginMatch = Some [''<<<BEGIN''],
              br_endMatch = Some [''END>>>'']\<rparr>],
          startLastIndex = bi, endLastIndex = ei\<rparr>"
  by (simp add: scan_simps sample_doc_def)

text \<open>
  Claim C1. On the six-line sample document, with patterns that match the \<open>BEGIN\<close> and
  \<open>END\<close> lines, a pass over the full document (whatever the viewport) finds exactly one
  block range, from line 1 to line 4; and when the pass renders the block (no decoration
  yet, cursor on line 5), the renderer is called with the interior lines joined by a
  newline, \<open>a\<newline>b\<close>, and the lines 1 and 4.
\<close>

theorem sample_document_discovery:
  "process_scan (literal ''<<<BEGIN'' False) (literal ''END>>>'' False) sample_doc vf vt True bi ei
   = Inr \<lparr>meetBeginToken = False, prevBeginTokenLineNumber = - 1,
          beginMatch = Some [''<<<BEGIN''],
          blockRangeList =
            [\<lparr>br_from = 1, br_to = 4, br_beginMatch = Some [''<<<BEGIN''],
              br_endMatch = Some [''END>>>'']\<rparr>],
          startLastIndex = bi, endLastIndex = ei\<rparr>
   \<and> process (recording_config (literal ''<<<BEGIN'' False) (literal ''END>>>'' False) rwe)
       (editor_of sample_doc vf vt 5) True (no_decorations bi ei)
   = Done \<lparr>st_markers =
             [\<lparr>tm_id = 0, tm_className = ''mk'', tm_from = \<lparr>pos_line = 1, pos_ch = 0\<rparr>,
               tm_to = \<lparr>pos_line = 4, pos_ch = 6\<rparr>, tm_replacedWith = Some None,
               tm_onclick = False\<rparr>],
           st_widgets =
             [\<lparr>lw_id = 1, lw_line = 4, lw_className = ''mk-line-widget'',
               lw_node = [Rendered (Some (Some [''<<<BEGIN''], Some [''END>>>''],
                                          ''a'' @ [CHR 0x0A] @ ''b'', 1, 4)),
                          EditButton]\<rparr>],
           st_next_id = 2, st_mutations = [MarkerAdded 0, WidgetAdded 1],
           st_startLastIndex = bi, st_endLastIndex = ei\<rparr>"
proof -
  have "process (recording_config (literal ''<<<BEGIN'' False) (literal ''END>>>'' False) rwe)
          (editor_of sample_doc vf vt 5) True (no_decorations bi ei)
        = markRanges (recording_config (literal ''<<<BEGIN'' False) (literal ''END>>>'' False) rwe)
            (editor_of sample_doc vf vt 5)
            [\<lparr>br_from = 1, br_to = 4, br_beginMatch = Some [''<<<BEGIN''],
              br_endMatch = Some [''END>>>'']\<rparr>]
            (no_decorations bi ei)"
    by (simp add: process_def sample_scan sample_simps)
  also have "\<dots> = Done \<lparr>st_markers =
             [\<lparr>tm_id = 0, tm_className = ''mk'', tm_from = \<lparr>pos_line = 1, pos_ch = 0\<rparr>,
               tm_to = \<lparr>pos_line = 4, pos_ch = 6\<rparr>, tm_replacedWith = Some None,
               tm_onclick = False\<rparr>],
           st_widgets =
             [\<lparr>lw_id = 1, lw_line = 4, lw_className = ''mk-line-widget'',
               lw_node = [Rendered (Some (Some [''<<<BEGIN''], Some [''END>>>''],
                                          ''a'' @ [CHR 0x0A] @ ''b'', 1, 4)),
                          EditButton]\<rparr>],
           st_next_id = 2, st_mutations = [MarkerAdded 0, WidgetAdded 1],
           st_startLastIndex = bi, st_endLastIndex = ei\<rparr>"
    by (simp add: mark_simps sample_simps sample_doc_def)
  finally show ?thesis by (simp add: sample_scan)
qed

section \<open>The bounded scan\<close>

lemma scan_inv_init: "scan_inv 0 (scan_init bi ei)"
  by (simp add: scan_inv_def scan_init_def well_separated_def)

lemma scan_step_inv:
  assumes "scan_inv i st" "scan_step bp ep ls fromLine i st = Inr st'"
  shows "scan_inv (i + 1) st'"
proof (cases "meetBeginToken st")
  case False
  with assms show ?thesis
    by (fastforce simp: scan_step_def scan_inv_def Let_def list_all_iff
             split: prod.splits bool.splits option.splits)
next
  case True
  with assms show ?thesis
    by (fastforce simp: scan_step_def scan_inv_def Let_def list_all_iff well_separated_def
                   sorted_wrt_append
             split: prod.splits bool.splits option.splits if_splits)
qed

lemma scan_loop_inv:
  "scan_inv i st \<Longrightarrow> scan_loop bp ep ls fromLine toLine i st = Inr st' \<Longrightarrow>
   \<exists>j. scan_inv j st'"
proof (induction bp ep ls fromLine toLine i st rule: scan_loop.induct)
  case (1 bp ep ls fromLine toLine i st)
  show ?case
  proof (cases "i < toLine")
    case False
    with "1.prems" show ?thesis by (auto simp: scan_loop.simps [of _ _ _ _ _ i])
  next
    case True
    with "1.prems" obtain st1 where
      s1: "scan_step bp ep ls fromLine i st = Inr st1" and
      l1: "scan_loop bp ep ls fromLine toLine (i + 1) st1 = Inr st'"
      by (auto simp: scan_loop.simps [of _ _ _ _ _ i] split: sum.splits)
    from scan_step_inv [OF "1.prems"(1) s1] have "scan_inv (i + 1) st1" .
    from "1.IH" [OF True s1 this l1] show ?thesis .
  qed
qed

text \<open>
  Claim C10. For every document, every window and every pair of patterns (with or without
  flags, so also for lines on which both patterns match), the block ranges that the
  bounded scan emits are pairwise disjoint and increasing: each range begins strictly
  after the end of every earlier range, and each range has its begin line strictly before
  its end line.
\<close>

theorem main_scan_well_separated:
  "scan_loop bp ep ls fromLine toLine 0 (scan_init bi ei) = Inr st \<Longrightarrow>
   well_separated (blockRangeList st)"
  using scan_loop_inv [OF scan_inv_init] by (auto simp: scan_inv_def)

lemma sample_scan_loop:
  "scan_loop (literal ''<<<BEGIN'' False) (literal ''END>>>'' False) sample_doc fromLine 6 0
     (scan_init 0 0)
   = Inr \<lparr>meetBeginToken = False, prevBeginTokenLineNumber = - 1,
          beginMatch = Some [''<<<BEGIN''],
          blockRangeList =
            (if fromLine \<le> 4 then
               [\<lparr>br_from = 1, br_to = 4, br_beginMatch = Some [''<<<BEGIN''],
                 br_endMatch = Some [''END>>>'']\<rparr>]
             else []),
          startLastIndex = 0, endLastIndex = 0\<rparr>"
  by (simp add: scan_simps sample_doc_def)

theorem main_scan_well_separated_witness:
  "scan_loop (literal ''<<<BEGIN'' False) (literal ''END>>>'' False) sample_doc 0 6 0
     (scan_init 0 0)
   = Inr \<lparr>meetBeginToken = False, prevBeginTokenLineNumber = - 1,
          beginMatch = Some [''<<<BEGIN''],
          blockRangeList =
            [\<lparr>br_from = 1, br_to = 4, br_beginMatch = Some [''<<<BEGIN''],
              br_endMatch = Some [''END>>>'']\<rparr>],
          startLastIndex = 0, endLastIndex = 0\<rparr>
   \<and> well_separated
        [\<lparr>br_from = 1, br_to = 4, br_beginMatch = Some [''<<<BEGIN''],
          br_endMatch = Some [''END>>>'']\<rparr>]"
proof -
  have h: "scan_loop (literal ''<<<BEGIN'' False) (literal ''END>>>'' False) sample_doc 0 6 0
     (scan_init 0 0)
   = Inr \<lparr>meetBeginToken = False, prevBeginTokenLineNumber = - 1,
          beginMatch = Some [''<<<BEGIN''],
          blockRangeList =
            [\<lparr>br_from = 1, br_to = 4, br_beginMatch = Some [''<<<BEGIN''],
              br_endMatch = Some [''END>>>'']\<rparr>],
          startLastIndex = 0, endLastIndex = 0\<rparr>"
    by (simp add: sample_scan_loop)
  from main_scan_well_separated [OF h] h show ?thesis by simp
qed

section \<open>The window start\<close>

lemma stateless_test: "stateless p \<Longrightarrow> regexp_test p li s = (fst (regexp_test p 0 s), li)"
  by (auto simp: stateless_def regexp_test_def regexp_exec_def split: option.splits prod.splits)

lemma stateless_match: "stateless p \<Longrightarrow> string_match p li s = (fst (string_match p 0 s), li)"
  by (auto simp: stateless_def string_match_def regexp_exec_def split: option.splits prod.splits)

lemma scan_step_emitted:
  "list_all (\<lambda>r. fromLine \<le> br_to r) (blockRangeList st) \<Longrightarrow>
   scan_step bp ep ls fromLine i st = Inr st' \<Longrightarrow>
   list_all (\<lambda>r. fromLine \<le> br_to r) (blockRangeList st')"
  by (auto simp: scan_step_def Let_def split: prod.splits bool.splits option.splits if_splits)

lemma scan_loop_emitted:
  "list_all (\<lambda>r. fromLine \<le> br_to r) (blockRangeList st) \<Longrightarrow>
   scan_loop bp ep ls fromLine toLine i st = Inr st' \<Longrightarrow>
   list_all (\<lambda>r. fromLine \<le> br_to r) (blockRangeList st')"
proof (induction bp ep ls fromLine toLine i st rule: scan_loop.induct)
  case (1 bp ep ls fromLine toLine i st)
  show ?case
  proof (cases "i < toLine")
    case False
    with "1.prems" show ?thesis by (auto simp: scan_loop.simps [of _ _ _ _ _ i])
  next
    case True
    with "1.prems" obtain st1 where
      s1: "scan_step bp ep ls fromLine i st = Inr st1" and
      l1: "scan_loop bp ep ls fromLine toLine (i + 1) st1 = Inr st'"
      by (auto simp: scan_loop.simps [of _ _ _ _ _ i] split: sum.splits)
    from "1.IH" [OF True s1 scan_step_emitted [OF "1.prems"(1) s1] l1] show ?thesis .
  qed
qed

lemma scan_step_same:
  assumes sl: "stateless bp" "stateless ep"
    and rel: "same_scan fromLine st st0"
    and i: "0 \<le> i"
    and step: "scan_step bp ep ls 0 i st0 = Inr st0'"
  shows "\<exists>st'. scan_step bp ep ls fromLine i st = Inr st' \<and> same_scan fromLine st' st0'"
proof -
  define b where "b = fst (regexp_test bp 0 (to_str (getLine ls i)))"
  define e where "e = fst (regexp_test ep 0 (to_str (getLine ls i)))"
  have tb: "regexp_test bp li (to_str (getLine ls i)) = (b, li)" for li
    unfolding b_def by (rule stateless_test [OF sl(1)])
  have te: "regexp_test ep li (to_str (getLine ls i)) = (e, li)" for li
    unfolding e_def by (rule stateless_test [OF sl(2)])
  define mbf where "mbf l = fst (string_match bp 0 l)" for l
  define mef where "mef l = fst (string_match ep 0 l)" for l
  have mb: "string_match bp li l = (mbf l, li)" for li l
    unfolding mbf_def by (rule stateless_match [OF sl(1)])
  have me: "string_match ep li l = (mef l, li)" for li l
    unfolding mef_def by (rule stateless_match [OF sl(2)])
  show ?thesis
  proof (cases "meetBeginToken st0")
    case False
    with rel i step show ?thesis
      by (cases b) (auto simp: scan_step_def same_scan_def tb mb split: option.splits)
  next
    case True
    with rel i step show ?thesis
      by (cases e; cases "fromLine \<le> i")
         (auto simp: scan_step_def same_scan_def te me split: option.splits)
  qed
qed

lemma scan_loop_same:
  "stateless bp \<Longrightarrow> stateless ep \<Longrightarrow> same_scan fromLine st st0 \<Longrightarrow> 0 \<le> i \<Longrightarrow>
   scan_loop bp ep ls 0 toLine i st0 = Inr st0' \<Longrightarrow>
   \<exists>st'. scan_loop bp ep ls fromLine toLine i st = Inr st' \<and> same_scan fromLine st' st0'"
proof (induction bp ep ls "0::int" toLine i st0 arbitrary: st rule: scan_loop.induct)
  case (1 bp ep ls toLine i st0)
  show ?case
  proof (cases "i < toLine")
    case False
    with "1.prems" show ?thesis
      by (auto simp: scan_loop.simps [of _ _ _ _ _ i])
  next
    case True
    with "1.prems" obtain st1 where
      s1: "scan_step bp ep ls 0 i st0 = Inr st1" and
      l1: "scan_loop bp ep ls 0 toLine (i + 1) st1 = Inr st0'"
      by (auto simp: scan_loop.simps [of _ _ _ _ _ i] split: sum.splits)
    from scan_step_same [OF "1.prems"(1,2,3,4) s1] obtain sa where
      a1: "scan_step bp ep ls fromLine i st = Inr sa" and a2: "same_scan fromLine sa st1"
      by blast
    from "1.prems"(4) have "0 \<le> i + 1" by simp
    from "1.hyps" [OF True s1 "1.prems"(1,2) a2 this l1] obtain st' where
      "scan_loop bp ep ls fromLine toLine (i + 1) sa = Inr st'" "same_scan fromLine st' st0'"
      by blast
    with True a1 show ?thesis
      by (auto simp: scan_loop.simps [of _ _ _ _ _ i])
  qed
qed

lemma scan_loop_lines:
  "scan_loop bp ep ls fromLine toLine i st = scan_lines bp ep ls fromLine [i .. toLine - 1] st"
proof (induction bp ep ls fromLine toLine i st rule: scan_loop.induct)
  case (1 bp ep ls fromLine toLine i st)
  show ?case
  proof (cases "i < toLine")
    case False
    then show ?thesis by (simp add: scan_loop.simps [of _ _ _ _ _ i])
  next
    case True
    then have u: "[i .. toLine - 1] = i # [i + 1 .. toLine - 1]" by (simp add: upto_rec1)
    show ?thesis
    proof (cases "scan_step bp ep ls fromLine i st")
      case (Inl e)
      with True u show ?thesis by (simp add: scan_loop.simps [of _ _ _ _ _ i])
    next
      case (Inr st1)
      with True u "1.IH" [OF True Inr] show ?thesis
        by (simp add: scan_loop.simps [of _ _ _ _ _ i])
    qed
  qed
qed

lemma process_scan_lines:
  "process_scan bp ep ls vf vt a bi ei =
     (case scan_lines bp ep ls (if a then 0 else vf)
             [0 .. (if a then lineCount ls else vt) - 1] (scan_init bi ei) of
        Inl e \<Rightarrow> Inl e
      | Inr st \<Rightarrow> if meetBeginToken st then backoff_loop ep ls vt st else Inr st)"
  by (simp add: process_scan_def scan_loop_lines)

lemma step_closes_above:
  "meetBeginToken st \<Longrightarrow> fst (regexp_test ep (endLastIndex st) (to_str (getLine ls i))) \<Longrightarrow>
   i < fromLine \<Longrightarrow>
   \<exists>st'. scan_step bp ep ls fromLine i st = Inr st' \<and> \<not> meetBeginToken st' \<and>
         prevBeginTokenLineNumber st' = - 1 \<and> blockRangeList st' = blockRangeList st"
  by (cases "regexp_test ep (endLastIndex st) (to_str (getLine ls i))")
     (auto simp: scan_step_def Let_def)

lemma step_closes_inside:
  "meetBeginToken st \<Longrightarrow> fst (regexp_test ep (endLastIndex st) (to_str (getLine ls i))) \<Longrightarrow>
   fromLine \<le> i \<Longrightarrow> getLine ls i \<noteq> None \<Longrightarrow>
   \<exists>st' m. scan_step bp ep ls fromLine i st = Inr st' \<and> \<not> meetBeginToken st' \<and>
         prevBeginTokenLineNumber st' = - 1 \<and>
         blockRangeList st' = blockRangeList st @
           [\<lparr>br_from = prevBeginTokenLineNumber st, br_to = i,
             br_beginMatch = beginMatch st, br_endMatch = m\<rparr>]"
  by (cases "regexp_test ep (endLastIndex st) (to_str (getLine ls i))")
     (auto simp: scan_step_def Let_def split: prod.splits)

lemma step_opens:
  "\<not> meetBeginToken st \<Longrightarrow> fst (regexp_test bp (startLastIndex st) (to_str (getLine ls i))) \<Longrightarrow>
   getLine ls i \<noteq> None \<Longrightarrow>
   \<exists>st'. scan_step bp ep ls fromLine i st = Inr st' \<and> meetBeginToken st' \<and>
         prevBeginTokenLineNumber st' = i \<and> blockRangeList st' = blockRangeList st"
  by (cases "regexp_test bp (startLastIndex st) (to_str (getLine ls i))")
     (auto simp: scan_step_def Let_def split: prod.splits)

lemma step_keeps:
  "(if meetBeginToken st then \<not> fst (regexp_test ep (endLastIndex st) (to_str (getLine ls i)))
    else \<not> fst (regexp_test bp (startLastIndex st) (to_str (getLine ls i)))) \<Longrightarrow>
   \<exists>st'. scan_step bp ep ls fromLine i st = Inr st' \<and>
         meetBeginToken st' = meetBeginToken st \<and>
         prevBeginTokenLineNumber st' = prevBeginTokenLineNumber st \<and>
         blockRangeList st' = blockRangeList st"
  by (cases "regexp_test ep (endLastIndex st) (to_str (getLine ls i))";
      cases "regexp_test bp (startLastIndex st) (to_str (getLine ls i))")
     (auto simp: scan_step_def Let_def split: if_splits)


lemma scan_lines_emitted:
  "scan_lines bp ep ls fromLine [0 .. toLine - 1] (scan_init bi ei) = Inr st \<Longrightarrow>
   list_all (\<lambda>r. fromLine \<le> br_to r) (blockRangeList st)"
  using scan_loop_emitted [of fromLine "scan_init bi ei" bp ep ls toLine 0 st]
  by (simp add: scan_loop_lines scan_init_def)

lemma scan_lines_same:
  assumes "stateless bp" "stateless ep"
    and "scan_lines bp ep ls 0 [0 .. toLine - 1] (scan_init bi ei) = Inr st0"
  shows "\<exists>st. scan_lines bp ep ls fromLine [0 .. toLine - 1] (scan_init bi ei) = Inr st \<and>
              same_scan fromLine st st0"
proof -
  have init: "same_scan fromLine (scan_init bi ei) (scan_init bi ei)"
    by (simp add: same_scan_def scan_init_def)
  from assms(3) have "scan_loop bp ep ls 0 toLine 0 (scan_init bi ei) = Inr st0"
    by (simp add: scan_loop_lines)
  from scan_loop_same [OF assms(1,2) init _ this] show ?thesis
    by (simp add: scan_loop_lines)
qed

text \<open>
  Claim C7. For every requested window, every document and every pair of patterns, the
  bounded scan of \<open>process\<close> runs the loop body on the lines 0, 1, ..., \<open>toLine - 1\<close>, in
  this order, whatever the start of the window: the start of the window is only an
  argument of the loop body (first statement). The loop body keeps one flag and the line
  of the open begin token. Outside a block, a line that matches the begin pattern sets the
  flag and records the line. Inside a block, a line that matches the end pattern closes
  the pair: when the line is at or after the start of the window the range is appended,
  when it lies above the start of the window nothing is appended, and in both cases the
  flag is cleared and the open line is set to -1. A line that matches neither leaves the
  flag, the open line and the ranges as they are. So every range of the bounded scan ends
  at or after the start of the window; and with patterns that keep no matching state, the
  scan for a window that starts at \<open>fromLine\<close> returns those ranges of the scan for a
  window that starts at line 0 that end at or after \<open>fromLine\<close>, with the same flag and
  the same open line at the end.
\<close>

theorem scan_from_line_zero:
  "process_scan bp ep ls vf vt a bi ei =
     (case scan_lines bp ep ls (if a then 0 else vf)
             [0 .. (if a then lineCount ls else vt) - 1] (scan_init bi ei) of
        Inl e \<Rightarrow> Inl e
      | Inr st \<Rightarrow> if meetBeginToken st then backoff_loop ep ls vt st else Inr st)
   \<and> (\<not> meetBeginToken st \<and>
      fst (regexp_test bp (startLastIndex st) (to_str (getLine ls i))) \<and> getLine ls i \<noteq> None \<longrightarrow>
      (\<exists>st'. scan_step bp ep ls fromLine i st = Inr st' \<and> meetBeginToken st' \<and>
             prevBeginTokenLineNumber st' = i \<and> blockRangeList st' = blockRangeList st))
   \<and> (meetBeginToken st \<and>
      fst (regexp_test ep (endLastIndex st) (to_str (getLine ls i))) \<and> getLine ls i \<noteq> None \<and>
      fromLine \<le> i \<longrightarrow>
      (\<exists>st' m. scan_step bp ep ls fromLine i st = Inr st' \<and> \<not> meetBeginToken st' \<and>
             prevBeginTokenLineNumber st' = - 1 \<and>
             blockRangeList st' = blockRangeList st @
               [\<lparr>br_from = prevBeginTokenLineNumber st, br_to = i,
                 br_beginMatch = beginMatch st, br_endMatch = m\<rparr>]))
   \<and> (meetBeginToken st \<and>
      fst (regexp_test ep (endLastIndex st) (to_str (getLine ls i))) \<and> i < fromLine \<longrightarrow>
      (\<exists>st'. scan_step bp ep ls fromLine i st = Inr st' \<and> \<not> meetBeginToken st' \<and>
             prevBeginTokenLineNumber st' = - 1 \<and> blockRangeList st' = blockRangeList st))
   \<and> ((if meetBeginToken st
        then \<not> fst (regexp_test ep (endLastIndex st) (to_str (getLine ls i)))
        else \<not> fst (regexp_test bp (startLastIndex st) (to_str (getLine ls i)))) \<longrightarrow>
      (\<exists>st'. scan_step bp ep ls fromLine i st = Inr st' \<and>
             meetBeginToken st' = meetBeginToken st \<and>
             prevBeginTokenLineNumber st' = prevBeginTokenLineNumber st \<and>
             blockRangeList st' = blockRangeList st))
   \<and> (scan_lines bp ep ls fromLine [0 .. toLine - 1] (scan_init bi ei) = Inr st1 \<longrightarrow>
      list_all (\<lambda>r. fromLine \<le> br_to r) (blockRangeList st1))
   \<and> (stateless bp \<and> stateless ep \<and>
      scan_lines bp ep ls 0 [0 .. toLine - 1] (scan_init bi ei) = Inr st0 \<longrightarrow>
      (\<exists>st2. scan_lines bp ep ls fromLine [0 .. toLine - 1] (scan_init bi ei) = Inr st2 \<and>
             blockRangeList st2 = filter (\<lambda>r. fromLine \<le> br_to r) (blockRangeList st0) \<and>
             meetBeginToken st2 = meetBeginToken st0 \<and>
             prevBeginTokenLineNumber st2 = prevBeginTokenLineNumber st0))"
proof (intro conjI)
  show "process_scan bp ep ls vf vt a bi ei =
     (case scan_lines bp ep ls (if a then 0 else vf)
             [0 .. (if a then lineCount ls else vt) - 1] (scan_init bi ei) of
        Inl e \<Rightarrow> Inl e
      | Inr st \<Rightarrow> if meetBeginToken st then backoff_loop ep ls vt st else Inr st)"
    by (rule process_scan_lines)
next
  show "\<not> meetBeginToken st \<and>
      fst (regexp_test bp (startLastIndex st) (to_str (getLine ls i))) \<and> getLine ls i \<noteq> None \<longrightarrow>
      (\<exists>st'. scan_step bp ep ls fromLine i st = Inr st' \<and> meetBeginToken st' \<and>
             prevBeginTokenLineNumber st' = i \<and> blockRangeList st' = blockRangeList st)"
    using step_opens [of st bp ls i ep fromLine] by blast
next
  show "meetBeginToken st \<and>
      fst (regexp_test ep (endLastIndex st) (to_str (getLine ls i))) \<and> getLine ls i \<noteq> None \<and>
      fromLine \<le> i \<longrightarrow>
      (\<exists>st' m. scan_step bp ep ls fromLine i st = Inr st' \<and> \<not> meetBeginToken st' \<and>
             prevBeginTokenLineNumber st' = - 1 \<and>
             blockRangeList st' = blockRangeList st @
               [\<lparr>br_from = prevBeginTokenLineNumber st, br_to = i,
                 br_beginMatch = beginMatch st, br_endMatch = m\<rparr>])"
    using step_closes_inside [of st ep ls i fromLine bp] by blast
next
  show "meetBeginToken st \<and>
      fst (regexp_test ep (endLastIndex st) (to_str (getLine ls i))) \<and> i < fromLine \<longrightarrow>
      (\<exists>st'. scan_step bp ep ls fromLine i st = Inr st' \<and> \<not> meetBeginToken st' \<and>
             prevBeginTokenLineNumber st' = - 1 \<and> blockRangeList st' = blockRangeList st)"
    using step_closes_above [of st ep ls i fromLine bp] by blast
next
  show "(if meetBeginToken st
        then \<not> fst (regexp_test ep (endLastIndex st) (to_str (getLine ls i)))
        else \<not> fst (regexp_test bp (startLastIndex st) (to_str (getLine ls i)))) \<longrightarrow>
      (\<exists>st'. scan_step bp ep ls fromLine i st = Inr st' \<and>
             meetBeginToken st' = meetBeginToken st \<and>
             prevBeginTokenLineNumber st' = prevBeginTokenLineNumber st \<and>
             blockRangeList st' = blockRangeList st)"
    using step_keeps [of st ep ls i bp fromLine] by blast
next
  show "scan_lines bp ep ls fromLine [0 .. toLine - 1] (scan_init bi ei) = Inr st1 \<longrightarrow>
      list_all (\<lambda>r. fromLine \<le> br_to r) (blockRangeList st1)"
    using scan_lines_emitted by blast
next
  show "stateless bp \<and> stateless ep \<and>
      scan_lines bp ep ls 0 [0 .. toLine - 1] (scan_init bi ei) = Inr st0 \<longrightarrow>
      (\<exists>st2. scan_lines bp ep ls fromLine [0 .. toLine - 1] (scan_init bi ei) = Inr st2 \<and>
             blockRangeList st2 = filter (\<lambda>r. fromLine \<le> br_to r) (blockRangeList st0) \<and>
             meetBeginToken st2 = meetBeginToken st0 \<and>
             prevBeginTokenLineNumber st2 = prevBeginTokenLineNumber st0)"
  proof
    assume h: "stateless bp \<and> stateless ep \<and>
      scan_lines bp ep ls 0 [0 .. toLine - 1] (scan_init bi ei) = Inr st0"
    then have sl: "stateless bp" "stateless ep"
      and s0: "scan_lines bp ep ls 0 [0 .. toLine - 1] (scan_init bi ei) = Inr st0"
      by simp_all
    from scan_lines_same [OF sl s0, of fromLine] show
      "\<exists>st2. scan_lines bp ep ls fromLine [0 .. toLine - 1] (scan_init bi ei) = Inr st2 \<and>
             blockRangeList st2 = filter (\<lambda>r. fromLine \<le> br_to r) (blockRangeList st0) \<and>
             meetBeginToken st2 = meetBeginToken st0 \<and>
             prevBeginTokenLineNumber st2 = prevBeginTokenLineNumber st0"
      by (auto simp: same_scan_def)
  qed
qed

lemma sample_scan_lines:
  "scan_lines (literal ''<<<BEGIN'' False) (literal ''END>>>'' False) sample_doc fromLine
     [0 .. 5] (scan_init 0 0)
   = Inr \<lparr>meetBeginToken = False, prevBeginTokenLineNumber = - 1,
          beginMatch = Some [''<<<BEGIN''],
          blockRangeList =
            (if fromLine \<le> 4 then
               [\<lparr>br_from = 1, br_to = 4, br_beginMatch = Some [''<<<BEGIN''],
                 br_endMatch = Some [''END>>>'']\<rparr>]
             else []),
          startLastIndex = 0, endLastIndex = 0\<rparr>"
  using sample_scan_loop [of fromLine] scan_loop_lines [of _ _ _ fromLine 6 0] by simp

theorem scan_from_line_zero_witness:
  "process_scan (literal ''<<<BEGIN'' False) (literal ''END>>>'' False) sample_doc 5 6 False 0 0 =
     (case scan_lines (literal ''<<<BEGIN'' False) (literal ''END>>>'' False) sample_doc 5
             [0 .. 5] (scan_init 0 0) of
        Inl e \<Rightarrow> Inl e
      | Inr st \<Rightarrow> if meetBeginToken st
                  then backoff_loop (literal ''END>>>'' False) sample_doc 6 st else Inr st)
   \<and> process_scan (literal ''<<<BEGIN'' False) (literal ''END>>>'' False) sample_doc 5 6 False 0 0
     = Inr \<lparr>meetBeginToken = False, prevBeginTokenLineNumber = - 1,
            beginMatch = Some [''<<<BEGIN''], blockRangeList = [],
            startLastIndex = 0, endLastIndex = 0\<rparr>
   \<and> process_scan (literal ''<<<BEGIN'' False) (literal ''END>>>'' False) sample_doc 2 6 False 0 0
     = Inr \<lparr>meetBeginToken = False, prevBeginTokenLineNumber = - 1,
            beginMatch = Some [''<<<BEGIN''],
            blockRangeList =
              [\<lparr>br_from = 1, br_to = 4, br_beginMatch = Some [''<<<BEGIN''],
                br_endMatch = Some [''END>>>'']\<rparr>],
            startLastIndex = 0, endLastIndex = 0\<rparr>
   \<and> (\<exists>st'. scan_step (literal ''<<<BEGIN'' False) (literal ''END>>>'' False) sample_doc 5 1
               (scan_init 0 0) = Inr st' \<and>
            meetBeginToken st' \<and> prevBeginTokenLineNumber st' = 1 \<and> blockRangeList st' = [])
   \<and> (\<exists>st' m. scan_step (literal ''<<<BEGIN'' False) (literal ''END>>>'' False) sample_doc 2 4
               \<lparr>meetBeginToken = True, prevBeginTokenLineNumber = 1,
                beginMatch = Some [''<<<BEGIN''], blockRangeList = [],
                startLastIndex = 0, endLastIndex = 0\<rparr> = Inr st' \<and>
            \<not> meetBeginToken st' \<and> prevBeginTokenLineNumber st' = - 1 \<and>
            blockRangeList st' =
              [\<lparr>br_from = 1, br_to = 4, br_beginMatch = Some [''<<<BEGIN''], br_endMatch = m\<rparr>])
   \<and> (\<exists>st'. scan_step (literal ''<<<BEGIN'' False) (literal ''END>>>'' False) sample_doc 5 4
               \<lparr>meetBeginToken = True, prevBeginTokenLineNumber = 1,
                beginMatch = Some [''<<<BEGIN''], blockRangeList = [],
                startLastIndex = 0, endLastIndex = 0\<rparr> = Inr st' \<and>
            \<not> meetBeginToken st' \<and> prevBeginTokenLineNumber st' = - 1 \<and>
            blockRangeList st' = [])
   \<and> (\<exists>st'. scan_step (literal ''<<<BEGIN'' False) (literal ''END>>>'' False) sample_doc 5 2
               \<lparr>meetBeginToken = True, prevBeginTokenLineNumber = 1,
                beginMatch = Some [''<<<BEGIN''], blockRangeList = [],
                startLastIndex = 0, endLastIndex = 0\<rparr> = Inr st' \<and>
            meetBeginToken st' \<and> prevBeginTokenLineNumber st' = 1 \<and> blockRangeList st' = [])
   \<and> stateless (literal ''<<<BEGIN'' False) \<and> stateless (literal ''END>>>'' False)
   \<and> (\<exists>st2. scan_lines (literal ''<<<BEGIN'' False) (literal ''END>>>'' False) sample_doc 5
               [0 .. 5] (scan_init 0 0) = Inr st2 \<and>
            blockRangeList st2 = [] \<and> \<not> meetBeginToken st2 \<and>
            prevBeginTokenLineNumber st2 = - 1)"
proof -
  let ?B = "literal ''<<<BEGIN'' False" and ?E = "literal ''END>>>'' False"
  let ?open = "\<lparr>meetBeginToken = True, prevBeginTokenLineNumber = 1,
                beginMatch = Some [''<<<BEGIN''], blockRangeList = [],
                startLastIndex = 0, endLastIndex = 0\<rparr>"
  let ?all = "\<lparr>meetBeginToken = False, prevBeginTokenLineNumber = - 1,
          beginMatch = Some [''<<<BEGIN''],
          blockRangeList =
            [\<lparr>br_from = 1, br_to = 4, br_beginMatch = Some [''<<<BEGIN''],
              br_endMatch = Some [''END>>>'']\<rparr>],
          startLastIndex = 0, endLastIndex = 0\<rparr>"
  let ?none = "\<lparr>meetBeginToken = False, prevBeginTokenLineNumber = - 1,
          beginMatch = Some [''<<<BEGIN''], blockRangeList = [],
          startLastIndex = 0, endLastIndex = 0\<rparr>"
  have sl: "stateless ?B" "stateless ?E"
    by (simp_all add: stateless_def literal_def)
  have l0: "scan_lines ?B ?E sample_doc 0 [0 .. 5] (scan_init 0 0) = Inr ?all"
    by (simp add: sample_scan_lines)
  have l5: "scan_lines ?B ?E sample_doc 5 [0 .. 5] (scan_init 0 0) = Inr ?none"
    by (simp add: sample_scan_lines)
  have b1: "\<not> meetBeginToken (scan_init 0 0)"
    "fst (regexp_test ?B (startLastIndex (scan_init 0 0)) (to_str (getLine sample_doc 1)))"
    "getLine sample_doc 1 \<noteq> None"
    by (simp_all add: scan_simps sample_doc_def)
  have e4: "meetBeginToken ?open"
    "fst (regexp_test ?E (endLastIndex ?open) (to_str (getLine sample_doc 4)))"
    "getLine sample_doc 4 \<noteq> None"
    by (simp_all add: scan_simps sample_doc_def)
  have e2: "\<not> fst (regexp_test ?E (endLastIndex ?open) (to_str (getLine sample_doc 2)))"
    by (simp add: scan_simps sample_doc_def)
  note above = scan_from_line_zero [where bp = ?B and ep = ?E and ls = sample_doc and vf = 5
      and vt = 6 and a = False and bi = 0 and ei = 0 and st = ?open and i = 4 and fromLine = 5
      and toLine = 6 and ?st1.0 = ?none and ?st0.0 = ?all]
  note inside = scan_from_line_zero [where bp = ?B and ep = ?E and ls = sample_doc and vf = 2
      and vt = 6 and a = False and bi = 0 and ei = 0 and st = ?open and i = 4 and fromLine = 2
      and toLine = 6 and ?st1.0 = ?all and ?st0.0 = ?all]
  note opens = scan_from_line_zero [where bp = ?B and ep = ?E and ls = sample_doc and vf = 5
      and vt = 6 and a = False and bi = 0 and ei = 0 and st = "scan_init 0 0" and i = 1
      and fromLine = 5 and toLine = 6 and ?st1.0 = ?none and ?st0.0 = ?all]
  note keeps = scan_from_line_zero [where bp = ?B and ep = ?E and ls = sample_doc and vf = 5
      and vt = 6 and a = False and bi = 0 and ei = 0 and st = ?open and i = 2
      and fromLine = 5 and toLine = 6 and ?st1.0 = ?none and ?st0.0 = ?all]
  from above have c1: "process_scan ?B ?E sample_doc 5 6 False 0 0 =
     (case scan_lines ?B ?E sample_doc 5 [0 .. 5] (scan_init 0 0) of
        Inl e \<Rightarrow> Inl e
      | Inr st \<Rightarrow> if meetBeginToken st then backoff_loop ?E sample_doc 6 st else Inr st)"
    by simp
  then have c2: "process_scan ?B ?E sample_doc 5 6 False 0 0 = Inr ?none"
    by (simp add: l5)
  have l2: "scan_lines ?B ?E sample_doc 2 [0 .. 5] (scan_init 0 0) = Inr ?all"
    by (simp add: sample_scan_lines)
  from inside have "process_scan ?B ?E sample_doc 2 6 False 0 0 =
     (case scan_lines ?B ?E sample_doc 2 [0 .. 5] (scan_init 0 0) of
        Inl e \<Rightarrow> Inl e
      | Inr st \<Rightarrow> if meetBeginToken st then backoff_loop ?E sample_doc 6 st else Inr st)"
    by simp
  then have c8: "process_scan ?B ?E sample_doc 2 6 False 0 0 = Inr ?all"
    by (simp add: l2)
  from opens b1 have c3: "\<exists>st'. scan_step ?B ?E sample_doc 5 1 (scan_init 0 0) = Inr st' \<and>
            meetBeginToken st' \<and> prevBeginTokenLineNumber st' = 1 \<and> blockRangeList st' = []"
    by (simp add: scan_init_def)
  from inside e4 have c4: "\<exists>st' m. scan_step ?B ?E sample_doc 2 4 ?open = Inr st' \<and>
            \<not> meetBeginToken st' \<and> prevBeginTokenLineNumber st' = - 1 \<and>
            blockRangeList st' =
              [\<lparr>br_from = 1, br_to = 4, br_beginMatch = Some [''<<<BEGIN''], br_endMatch = m\<rparr>]"
    by simp
  from above e4 have c5: "\<exists>st'. scan_step ?B ?E sample_doc 5 4 ?open = Inr st' \<and>
            \<not> meetBeginToken st' \<and> prevBeginTokenLineNumber st' = - 1 \<and>
            blockRangeList st' = []"
    by simp
  from keeps e2 have c6: "\<exists>st'. scan_step ?B ?E sample_doc 5 2 ?open = Inr st' \<and>
            meetBeginToken st' \<and> prevBeginTokenLineNumber st' = 1 \<and> blockRangeList st' = []"
    by simp
  from above sl l0 have c7: "\<exists>st2. scan_lines ?B ?E sample_doc 5 [0 .. 5] (scan_init 0 0)
               = Inr st2 \<and>
            blockRangeList st2 = [] \<and> \<not> meetBeginToken st2 \<and>
            prevBeginTokenLineNumber st2 = - 1"
    by simp
  from c1 c2 c8 c3 c4 c5 c6 c7 sl show ?thesis by blast
qed

section \<open>The scan past the window\<close>

lemma viewport_backoff_sample:
  "process_scan (literal ''<<<BEGIN'' False) (literal ''END>>>'' False) sample_doc 0 2 False 0 0
   = Inr \<lparr>meetBeginToken = True, prevBeginTokenLineNumber = 1,
          beginMatch = Some [''<<<BEGIN''],
          blockRangeList =
            [\<lparr>br_from = 1, br_to = 4, br_beginMatch = Some [''<<<BEGIN''],
              br_endMatch = Some [''END>>>'']\<rparr>],
          startLastIndex = 0, endLastIndex = 0\<rparr>"
  by (simp add: scan_simps sample_doc_def)

text \<open>The second loop, started at line \<open>i\<close> with a pattern that keeps no state, emits the
  range that ends at the first line from \<open>i\<close> on that matches the end token, and nothing
  when no such line exists. In viewport mode it is started at \<open>toLine\<close>.\<close>

lemma backoff_finds_first_end:
  "stateless ep \<Longrightarrow> backoff_loop ep ls i st = Inr st' \<Longrightarrow>
   (\<exists>j m. i \<le> j \<and> j < lineCount ls \<and>
       fst (regexp_test ep 0 (to_str (getLine ls j))) \<and>
       (\<forall>k. i \<le> k \<and> k < j \<longrightarrow> \<not> fst (regexp_test ep 0 (to_str (getLine ls k)))) \<and>
       blockRangeList st' = blockRangeList st @
         [\<lparr>br_from = prevBeginTokenLineNumber st, br_to = j,
           br_beginMatch = beginMatch st, br_endMatch = m\<rparr>])
   \<or> ((\<forall>k. i \<le> k \<and> k < lineCount ls \<longrightarrow> \<not> fst (regexp_test ep 0 (to_str (getLine ls k)))) \<and>
      blockRangeList st' = blockRangeList st)"
proof (induction ep ls i st rule: backoff_loop.induct)
  case (1 ep ls i st)
  show ?case
  proof (cases "i < lineCount ls")
    case False
    with "1.prems" show ?thesis by (auto simp: backoff_loop.simps [of _ _ i])
  next
    case True
    obtain b li where t: "regexp_test ep (endLastIndex st) (to_str (getLine ls i)) = (b, li)"
      by (cases "regexp_test ep (endLastIndex st) (to_str (getLine ls i))") auto
    from stateless_test [OF "1.prems"(1), of "endLastIndex st" "to_str (getLine ls i)"] t
    have b: "b = fst (regexp_test ep 0 (to_str (getLine ls i)))" by simp
    show ?thesis
    proof (cases b)
      case yes: True
      with True t "1.prems"(2) obtain m li' where
        "st' = st\<lparr>blockRangeList := blockRangeList st @
                     [\<lparr>br_from = prevBeginTokenLineNumber st, br_to = i,
                       br_beginMatch = beginMatch st, br_endMatch = m\<rparr>],
                   endLastIndex := li'\<rparr>"
        by (auto simp: backoff_loop.simps [of _ _ i] split: option.splits prod.splits)
      with True yes b show ?thesis by (intro disjI1 exI [of _ i] exI [of _ m]) auto
    next
      case no: False
      with True t "1.prems"(2) have
        l: "backoff_loop ep ls (i + 1) (st\<lparr>endLastIndex := li\<rparr>) = Inr st'"
        by (simp add: backoff_loop.simps [of _ _ i])
      from no b have nb: "\<not> fst (regexp_test ep 0 (to_str (getLine ls i)))" by simp
      have step: "i \<le> k \<Longrightarrow> k = i \<or> i + 1 \<le> k" for k :: int by auto
      from "1.IH" [OF True refl t [symmetric] _ "1.prems"(1) l] no
      consider (found) j m where "i + 1 \<le> j" "j < lineCount ls"
          "fst (regexp_test ep 0 (to_str (getLine ls j)))"
          "\<forall>k. i + 1 \<le> k \<and> k < j \<longrightarrow> \<not> fst (regexp_test ep 0 (to_str (getLine ls k)))"
          "blockRangeList st' = blockRangeList st @
             [\<lparr>br_from = prevBeginTokenLineNumber st, br_to = j,
               br_beginMatch = beginMatch st, br_endMatch = m\<rparr>]"
        | (none) "\<forall>k. i + 1 \<le> k \<and> k < lineCount ls \<longrightarrow>
                      \<not> fst (regexp_test ep 0 (to_str (getLine ls k)))"
          "blockRangeList st' = blockRangeList st"
        by auto
      then show ?thesis
      proof cases
        case found
        from found(4) nb have
          "\<forall>k. i \<le> k \<and> k < j \<longrightarrow> \<not> fst (regexp_test ep 0 (to_str (getLine ls k)))"
          using step by blast
        with found(1,2,3,5) show ?thesis
          by (intro disjI1 exI [of _ j] exI [of _ m]) auto
      next
        case none
        from none(1) nb have
          "\<forall>k. i \<le> k \<and> k < lineCount ls \<longrightarrow> \<not> fst (regexp_test ep 0 (to_str (getLine ls k)))"
          using step by blast
        with none(2) show ?thesis by blast
      qed
    qed
  qed
qed

text \<open>
  Claim C3 says that in full-document mode the window is the whole document, so that the
  scan past the window covers no further line and emits nothing. The second loop of
  \<open>process\<close> starts at \<open>viewport.to\<close>, not at \<open>toLine\<close>. With the viewport \<open>[0,2)\<close> over a
  document whose last line opens a block that is never closed, the full-document pass
  scans the lines 2 to 5 a second time and emits a second range, from line 5 to line 3,
  for the end token of the block that was already emitted.
\<close>

theorem full_document_rescans_from_viewport:
  "process_scan (literal ''<<<BEGIN'' False) (literal ''END>>>'' False) open_tail_doc 0 2 True 0 0
   = Inr \<lparr>meetBeginToken = True, prevBeginTokenLineNumber = 5,
          beginMatch = Some [''<<<BEGIN''],
          blockRangeList =
            [\<lparr>br_from = 1, br_to = 3, br_beginMatch = Some [''<<<BEGIN''],
              br_endMatch = Some [''END>>>'']\<rparr>,
             \<lparr>br_from = 5, br_to = 3, br_beginMatch = Some [''<<<BEGIN''],
              br_endMatch = Some [''END>>>'']\<rparr>],
          startLastIndex = 0, endLastIndex = 0\<rparr>"
  by (simp add: scan_simps open_tail_doc_def)

section \<open>Patterns with matching state\<close>

text \<open>
  Claim C8 says that the patterns are consumed statelessly. \<open>process\<close> never resets
  \<open>lastIndex\<close>. With the end pattern \<open>/END/g\<close> and the viewport \<open>[2,4)\<close> over the document
  \<open>BEGIN\<close>, \<open>END\<close>, \<open>x\<close>, \<open>END\<close>, the first pass finds no range and leaves \<open>lastIndex\<close> of
  the end pattern at 3; the second pass over the same document then misses the end token
  on line 1 and emits the range from line 0 to line 3.
\<close>

theorem global_pattern_keeps_state:
  "process_scan (literal ''BEGIN'' False) (literal ''END'' True)
     [''BEGIN'', ''END'', ''x'', ''END''] 2 4 False 0 0
   = Inr \<lparr>meetBeginToken = False, prevBeginTokenLineNumber = - 1,
          beginMatch = Some [''BEGIN''], blockRangeList = [],
          startLastIndex = 0, endLastIndex = 3\<rparr>
   \<and> process_scan (literal ''BEGIN'' False) (literal ''END'' True)
     [''BEGIN'', ''END'', ''x'', ''END''] 2 4 False 0 3
   = Inr \<lparr>meetBeginToken = False, prevBeginTokenLineNumber = - 1,
          beginMatch = Some [''BEGIN''],
          blockRangeList =
            [\<lparr>br_from = 0, br_to = 3, br_beginMatch = Some [''BEGIN''],
              br_endMatch = Some [''END'']\<rparr>],
          startLastIndex = 0, endLastIndex = 0\<rparr>"
  by (simp add: scan_simps)

section \<open>A marker whose span has moved\<close>

text \<open>
  Claim C4 says that a tagged marker whose span no longer matches the range is cleared
  with its widget and is not treated as existing, so that a new pair is created when the
  cursor is outside. The callback assigns \<open>existingMarker\<close> before it compares the span.
  On the sample document, with a store that holds a marker of the class on the lines 2 to
  4 and its widget on line 4, and the cursor on line 5, the pass clears both and then takes
  the branch for an existing marker: it creates nothing.
\<close>

theorem moved_marker_counts_as_existing:
  "process (recording_config (literal ''<<<BEGIN'' False) (literal ''END>>>'' False) rwe)
     (editor_of sample_doc 0 6 5) False stale_state
   = Done \<lparr>st_markers = [], st_widgets = [], st_next_id = 2,
           st_mutations = [MarkerCleared 0, WidgetCleared 1],
           st_startLastIndex = 0, st_endLastIndex = 0\<rparr>"
proof -
  have "process_scan (literal ''<<<BEGIN'' False) (literal ''END>>>'' False) sample_doc 0 6 False 0 0
   = Inr \<lparr>meetBeginToken = False, prevBeginTokenLineNumber = - 1,
          beginMatch = Some [''<<<BEGIN''],
          blockRangeList =
            [\<lparr>br_from = 1, br_to = 4, br_beginMatch = Some [''<<<BEGIN''],
              br_endMatch = Some [''END>>>'']\<rparr>],
          startLastIndex = 0, endLastIndex = 0\<rparr>"
    by (simp add: scan_simps sample_doc_def)
  then have "process (recording_config (literal ''<<<BEGIN'' False) (literal ''END>>>'' False) rwe)
          (editor_of sample_doc 0 6 5) False stale_state
        = markRanges (recording_config (literal ''<<<BEGIN'' False) (literal ''END>>>'' False) rwe)
            (editor_of sample_doc 0 6 5)
            [\<lparr>br_from = 1, br_to = 4, br_beginMatch = Some [''<<<BEGIN''],
              br_endMatch = Some [''END>>>'']\<rparr>]
            stale_state"
    by (simp add: process_def sample_simps stale_state_def)
  also have "\<dots> = Done \<lparr>st_markers = [], st_widgets = [], st_next_id = 2,
           st_mutations = [MarkerCleared 0, WidgetCleared 1],
           st_startLastIndex = 0, st_endLastIndex = 0\<rparr>"
    by (simp add: mark_simps sample_simps sample_doc_def stale_state_def)
  finally show ?thesis .
qed

section \<open>Decorations of other kinds\<close>

lemma step_ok_refl: "wf_state s \<Longrightarrow> step_ok cfg s s"
  by (simp add: step_ok_def)

lemma step_ok_trans: "step_ok cfg s s' \<Longrightarrow> step_ok cfg s' s'' \<Longrightarrow> step_ok cfg s s''"
  by (simp add: step_ok_def)

lemma step_ok_wf: "step_ok cfg s s' \<Longrightarrow> wf_state s'"
  by (simp add: step_ok_def)

lemma filter_other_id:
  "\<forall>x\<in>set xs. f x = i \<longrightarrow> \<not> P x \<Longrightarrow> filter (\<lambda>x. f x \<noteq> i \<and> P x) xs = filter P xs"
  by (rule filter_cong) auto

lemma widget_ids_update [simp]:
  "map (lw_id \<circ> (\<lambda>w. if c w then w\<lparr>lw_node := n w\<rparr> else w)) ws = map lw_id ws"
  by (induction ws) auto

lemma marker_ids_update [simp]:
  "map (tm_id \<circ> (\<lambda>m. if c m then m\<lparr>tm_onclick := b\<rparr> else m)) ms = map tm_id ms"
  by (induction ms) auto

lemma filter_widget_update:
  "\<forall>w\<in>set ws. c w \<longrightarrow> \<not> P w \<Longrightarrow> (\<And>w. P (w\<lparr>lw_node := n w\<rparr>) = P w) \<Longrightarrow>
   filter P (map (\<lambda>w. if c w then w\<lparr>lw_node := n w\<rparr> else w) ws) = filter P ws"
  by (induction ws) auto

lemma filter_marker_update:
  "\<forall>m\<in>set ms. c m \<longrightarrow> \<not> P m \<Longrightarrow> (\<And>m. P (m\<lparr>tm_onclick := b\<rparr>) = P m) \<Longrightarrow>
   filter P (map (\<lambda>m. if c m then m\<lparr>tm_onclick := b\<rparr> else m) ms) = filter P ms"
  by (induction ms) auto

lemma step_ok_clear_marker:
  "wf_state s \<Longrightarrow> marker_owned cfg s i \<Longrightarrow> step_ok cfg s (clear_marker i s)"
  unfolding step_ok_def clear_marker_def wf_state_def marker_owned_def widget_owned_def
    foreign_markers_def foreign_widgets_def
  by (auto simp: distinct_map_filter list_all_iff filter_other_id)

lemma step_ok_clear_widget:
  "wf_state s \<Longrightarrow> widget_owned cfg s i \<Longrightarrow> step_ok cfg s (clear_widget i s)"
  unfolding step_ok_def clear_widget_def wf_state_def marker_owned_def widget_owned_def
    foreign_markers_def foreign_widgets_def
  by (auto simp: distinct_map_filter list_all_iff filter_other_id)

lemma step_ok_markText:
  "wf_state s \<Longrightarrow> markText from to el (MARKER_CLASS_NAME cfg) s = (i, s') \<Longrightarrow>
   step_ok cfg s s' \<and> marker_owned cfg s' i"
  unfolding step_ok_def markText_def wf_state_def marker_owned_def widget_owned_def
    foreign_markers_def foreign_widgets_def
  by (fastforce simp: Let_def list_all_iff split: if_splits)

lemma step_ok_addLineWidget:
  "wf_state s \<Longrightarrow> addLineWidget n node (lineWidgetClassName cfg) s = (i, s') \<Longrightarrow>
   step_ok cfg s s' \<and> widget_owned cfg s' i"
  unfolding step_ok_def addLineWidget_def wf_state_def marker_owned_def widget_owned_def
    foreign_markers_def foreign_widgets_def
  by (fastforce simp: Let_def list_all_iff)

lemma step_ok_empty_node:
  "wf_state s \<Longrightarrow> widget_owned cfg s i \<Longrightarrow> step_ok cfg s (empty_node i s)"
  unfolding step_ok_def empty_node_def wf_state_def marker_owned_def widget_owned_def
    foreign_markers_def foreign_widgets_def
  by (auto simp: list_all_iff filter_widget_update)

lemma step_ok_append_child:
  "wf_state s \<Longrightarrow> widget_owned cfg s i \<Longrightarrow> step_ok cfg s (append_child i c s)"
  unfolding step_ok_def append_child_def wf_state_def marker_owned_def widget_owned_def
    foreign_markers_def foreign_widgets_def
  by (auto simp: list_all_iff filter_widget_update)

lemma step_ok_setStyleAndLogical:
  "wf_state s \<Longrightarrow> marker_owned cfg s tm \<Longrightarrow> widget_owned cfg s lw \<Longrightarrow>
   step_ok cfg s (setStyleAndLogical cfg tm lw s)"
  unfolding step_ok_def setStyleAndLogical_def wf_state_def marker_owned_def widget_owned_def
    foreign_markers_def foreign_widgets_def
  by (auto simp: list_all_iff filter_widget_update filter_marker_update)


lemma step_ok_marker_owned: "step_ok cfg s s' \<Longrightarrow> marker_owned cfg s i \<Longrightarrow> marker_owned cfg s' i"
  by (simp add: step_ok_def)

lemma step_ok_widget_owned: "step_ok cfg s s' \<Longrightarrow> widget_owned cfg s i \<Longrightarrow> widget_owned cfg s' i"
  by (simp add: step_ok_def)

lemma marker_owned_member:
  assumes "wf_state s" "m \<in> set (st_markers s)" "tm_className m = MARKER_CLASS_NAME cfg"
  shows "marker_owned cfg s (tm_id m)"
proof -
  from assms(1) have "inj_on tm_id (set (st_markers s))"
    by (simp add: wf_state_def distinct_map)
  with assms(2,3) show ?thesis
    by (auto simp: marker_owned_def list_all_iff dest: inj_onD)
qed

lemma widget_owned_member:
  assumes "wf_state s" "w \<in> set (st_widgets s)" "lw_className w = lineWidgetClassName cfg"
  shows "widget_owned cfg s (lw_id w)"
proof -
  from assms(1) have "inj_on lw_id (set (st_widgets s))"
    by (simp add: wf_state_def distinct_map)
  with assms(2,3) show ?thesis
    by (auto simp: widget_owned_def list_all_iff dest: inj_onD)
qed

lemma find_Some_member: "find P xs = Some x \<Longrightarrow> P x \<and> x \<in> set xs"
  by (induction xs) (auto split: if_splits)

lemma widget_owned_find:
  assumes "wf_state s" "findLineWidgetAtLine s n (lineWidgetClassName cfg) = Some w"
  shows "widget_owned cfg s (lw_id w)"
proof -
  from assms(2) have "w \<in> set (st_widgets s)" "lw_className w = lineWidgetClassName cfg"
    by (auto simp: findLineWidgetAtLine_def dest: find_Some_member)
  with assms(1) show ?thesis by (rule widget_owned_member)
qed

lemma check_mark_ok:
  assumes acc: "acc_owned cfg (em, ew, s)"
    and m: "tm_className marker = MARKER_CLASS_NAME cfg \<longrightarrow> marker_owned cfg s (tm_id marker)"
    and res: "check_mark cfg from to marker (em, ew, s) = (em', ew', s')"
  shows "step_ok cfg s s' \<and> acc_owned cfg (em', ew', s')"
proof (cases "tm_className marker = MARKER_CLASS_NAME cfg")
  case False
  with acc res show ?thesis by (auto simp: check_mark_def acc_owned_def step_ok_refl)
next
  case True
  from acc have wf: "wf_state s" by (simp add: acc_owned_def)
  from True m have mo: "marker_owned cfg s (tm_id marker)" by simp
  have c1: "step_ok cfg s (clear_marker (tm_id marker) s)"
    by (rule step_ok_clear_marker [OF wf mo])
  show ?thesis
  proof (cases "findLineWidgetAtLine s (pos_line to) (lineWidgetClassName cfg)")
    case None
    with True acc res c1 show ?thesis
      by (auto simp: check_mark_def Let_def acc_owned_def step_ok_refl step_ok_wf
               dest: step_ok_marker_owned split: if_splits option.splits)
  next
    case (Some w)
    from widget_owned_find [OF wf Some] have wo: "widget_owned cfg s (lw_id w)" .
    have c2: "step_ok cfg (clear_marker (tm_id marker) s)
                (clear_widget (lw_id w) (clear_marker (tm_id marker) s))"
      by (rule step_ok_clear_widget [OF step_ok_wf [OF c1] step_ok_widget_owned [OF c1 wo]])
    from step_ok_trans [OF c1 c2] have c12:
      "step_ok cfg s (clear_widget (lw_id w) (clear_marker (tm_id marker) s))" .
    from True Some res consider
      (a) "em' = Some (tm_id marker)" "ew' = Some (lw_id w)"
          "s' = clear_widget (lw_id w) (clear_marker (tm_id marker) s)"
      | (b) "em' = Some (tm_id marker)" "ew' = Some (lw_id w)" "s' = s"
      by (auto simp: check_mark_def Let_def split: if_splits)
    then show ?thesis
    proof cases
      case a
      with c12 mo wo show ?thesis
        by (auto simp: acc_owned_def step_ok_wf dest: step_ok_marker_owned step_ok_widget_owned)
    next
      case b
      with wf mo wo show ?thesis by (simp add: acc_owned_def step_ok_refl)
    qed
  qed
qed

lemma check_marks_ok:
  "acc_owned cfg (em, ew, s) \<Longrightarrow>
   \<forall>m\<in>set ms. tm_className m = MARKER_CLASS_NAME cfg \<longrightarrow> marker_owned cfg s (tm_id m) \<Longrightarrow>
   check_marks cfg from to ms (em, ew, s) = (em', ew', s') \<Longrightarrow>
   step_ok cfg s s' \<and> acc_owned cfg (em', ew', s')"
proof (induction ms arbitrary: em ew s)
  case Nil
  then show ?case by (auto simp: acc_owned_def step_ok_refl)
next
  case (Cons m ms)
  obtain em1 ew1 s1 where r1: "check_mark cfg from to m (em, ew, s) = (em1, ew1, s1)"
    by (cases "check_mark cfg from to m (em, ew, s)") auto
  from Cons.prems(2) have
    "tm_className m = MARKER_CLASS_NAME cfg \<longrightarrow> marker_owned cfg s (tm_id m)" by simp
  from check_mark_ok [OF Cons.prems(1) this r1]
  have ok1: "step_ok cfg s s1" and acc1: "acc_owned cfg (em1, ew1, s1)" by simp_all
  from Cons.prems(2) ok1 have
    "\<forall>m\<in>set ms. tm_className m = MARKER_CLASS_NAME cfg \<longrightarrow> marker_owned cfg s1 (tm_id m)"
    by (auto dest: step_ok_marker_owned)
  from Cons.IH [OF acc1 this] Cons.prems(3) r1
  have "step_ok cfg s1 s' \<and> acc_owned cfg (em', ew', s')" by simp
  with ok1 show ?case by (auto intro: step_ok_trans)
qed

lemma sweep_widgets_ok:
  "wf_state s \<Longrightarrow> step_ok cfg s (sweep_widgets cfg ns s)"
proof (induction ns arbitrary: s)
  case Nil
  then show ?case by (simp add: step_ok_refl)
next
  case (Cons n ns)
  show ?case
  proof (cases "findLineWidgetAtLine s n (lineWidgetClassName cfg)")
    case None
    with Cons show ?thesis by simp
  next
    case (Some w)
    from step_ok_clear_widget [OF Cons.prems widget_owned_find [OF Cons.prems Some]]
    have c: "step_ok cfg s (clear_widget (lw_id w) s)" .
    from Cons.IH [OF step_ok_wf [OF c]] c Some show ?thesis
      by (auto intro: step_ok_trans)
  qed
qed

lemma selected_outside_ok:
  assumes "acc_owned cfg (em, ew, s)"
  shows "step_ok cfg s (outcome_state (selected_outside em ew s))"
proof -
  from assms have wf: "wf_state s" by (simp add: acc_owned_def)
  show ?thesis
  proof (cases em)
    case None
    with wf show ?thesis by (simp add: selected_outside_def step_ok_refl)
  next
    case (Some m)
    with assms have "marker_owned cfg s m" by (simp add: acc_owned_def)
    from step_ok_clear_marker [OF wf this] have c1: "step_ok cfg s (clear_marker m s)" .
    show ?thesis
    proof (cases ew)
      case None
      with Some c1 show ?thesis by (simp add: selected_outside_def)
    next
      case (Some w)
      with assms have "widget_owned cfg s w" by (simp add: acc_owned_def)
      from step_ok_clear_widget [OF step_ok_wf [OF c1] step_ok_widget_owned [OF c1 this]]
      have "step_ok cfg (clear_marker m s) (clear_widget w (clear_marker m s))" .
      with c1 Some \<open>em = Some m\<close> show ?thesis
        by (auto simp: selected_outside_def intro: step_ok_trans)
    qed
  qed
qed

lemma cursor_outside_ok:
  assumes wf: "wf_state s"
  shows "step_ok cfg s (outcome_state (cursor_outside cfg r from to content em s))"
proof (cases em)
  case (Some m)
  with wf show ?thesis by (simp add: cursor_outside_def step_ok_refl)
next
  case None
  define s3 where "s3 = (case findLineWidgetAtLine s (pos_line to) (lineWidgetClassName cfg) of
                           None \<Rightarrow> s | Some w \<Rightarrow> clear_widget (lw_id w) s)"
  have c3: "step_ok cfg s s3"
    unfolding s3_def using wf
    by (auto simp: step_ok_refl split: option.splits
             intro: step_ok_clear_widget widget_owned_find)
  show ?thesis
  proof (cases "spanRenderer cfg")
    case None
    with \<open>em = None\<close> c3 show ?thesis by (simp add: cursor_outside_def s3_def)
  next
    case (Some markerEl)
    obtain tm s4 where mt: "markText from to markerEl (MARKER_CLASS_NAME cfg) s3 = (tm, s4)"
      by (cases "markText from to markerEl (MARKER_CLASS_NAME cfg) s3") auto
    from step_ok_markText [OF step_ok_wf [OF c3] mt]
    have c4: "step_ok cfg s3 s4" and tmo: "marker_owned cfg s4 tm" by simp_all
    from c3 c4 have c34: "step_ok cfg s s4" by (rule step_ok_trans)
    show ?thesis
    proof (cases "renderer cfg (br_beginMatch r) (br_endMatch r) content (pos_line from) (pos_line to)")
      case None
      with \<open>em = None\<close> Some mt c34 show ?thesis
        by (simp add: cursor_outside_def s3_def [symmetric])
    next
      case (Some element)
      obtain lw s5 where al:
        "addLineWidget (pos_line to) [Rendered element] (lineWidgetClassName cfg) s4 = (lw, s5)"
        by (cases "addLineWidget (pos_line to) [Rendered element] (lineWidgetClassName cfg) s4")
           auto
      from step_ok_addLineWidget [OF step_ok_wf [OF c4] al]
      have c5: "step_ok cfg s4 s5" and lwo: "widget_owned cfg s5 lw" by simp_all
      from step_ok_setStyleAndLogical [OF step_ok_wf [OF c5] step_ok_marker_owned [OF c5 tmo] lwo]
      have "step_ok cfg s5 (setStyleAndLogical cfg tm lw s5)" .
      with c34 c5 have "step_ok cfg s (setStyleAndLogical cfg tm lw s5)"
        by (blast intro: step_ok_trans)
      with \<open>em = None\<close> \<open>spanRenderer cfg = Some markerEl\<close> Some mt al show ?thesis
        by (simp add: cursor_outside_def s3_def [symmetric])
    qed
  qed
qed

lemma cursor_inside_ok:
  assumes "acc_owned cfg (em, ew, s)"
  shows "step_ok cfg s (outcome_state (cursor_inside cfg r from to content em s))"
proof -
  from assms have wf: "wf_state s" by (simp add: acc_owned_def)
  define s3 where "s3 = (case em of None \<Rightarrow> s | Some m \<Rightarrow> clear_marker m s)"
  have c3: "step_ok cfg s s3"
    unfolding s3_def using assms
    by (auto simp: acc_owned_def step_ok_refl split: option.splits intro: step_ok_clear_marker)
  note wf3 = step_ok_wf [OF c3]
  show ?thesis
  proof (cases "findLineWidgetAtLine s3 (pos_line to) (lineWidgetClassName cfg)")
    case None
    show ?thesis
    proof (cases "renderWhenEditing cfg")
      case False
      with None c3 show ?thesis by (simp add: cursor_inside_def s3_def [symmetric])
    next
      case True
      show ?thesis
      proof (cases "renderer cfg (br_beginMatch r) (br_endMatch r) content (pos_line from) (pos_line to)")
        case None
        with \<open>findLineWidgetAtLine s3 (pos_line to) (lineWidgetClassName cfg) = None\<close> True c3
        show ?thesis by (simp add: cursor_inside_def s3_def [symmetric])
      next
        case (Some element)
        from step_ok_addLineWidget [OF wf3, of "pos_line to" "[Rendered element]" cfg]
        have "step_ok cfg s3 (snd (addLineWidget (pos_line to) [Rendered element]
                                     (lineWidgetClassName cfg) s3))"
          by (cases "addLineWidget (pos_line to) [Rendered element] (lineWidgetClassName cfg) s3")
             auto
        with c3 Some None True show ?thesis
          by (auto simp: cursor_inside_def s3_def [symmetric] intro: step_ok_trans)
      qed
    qed
  next
    case (Some w)
    from widget_owned_find [OF wf3 Some] have wo: "widget_owned cfg s3 (lw_id w)" .
    show ?thesis
    proof (cases "renderWhenEditing cfg")
      case False
      from step_ok_clear_widget [OF wf3 wo] c3 False Some show ?thesis
        by (auto simp: cursor_inside_def s3_def [symmetric] intro: step_ok_trans)
    next
      case True
      from step_ok_empty_node [OF wf3 wo] have c4: "step_ok cfg s3 (empty_node (lw_id w) s3)" .
      from c3 c4 have c34: "step_ok cfg s (empty_node (lw_id w) s3)" by (rule step_ok_trans)
      show ?thesis
      proof (cases "renderer cfg (br_beginMatch r) (br_endMatch r) content (pos_line from) (pos_line to)")
        case None
        with Some True c34 show ?thesis by (simp add: cursor_inside_def s3_def [symmetric])
      next
        case (Some element)
        from step_ok_append_child [OF step_ok_wf [OF c4] step_ok_widget_owned [OF c4 wo]]
        have "step_ok cfg (empty_node (lw_id w) s3)
                (append_child (lw_id w) (Rendered element) (empty_node (lw_id w) s3))" .
        with c34 Some True
          \<open>findLineWidgetAtLine s3 (pos_line to) (lineWidgetClassName cfg) = Some w\<close>
        show ?thesis
          by (auto simp: cursor_inside_def s3_def [symmetric] intro: step_ok_trans)
      qed
    qed
  qed
qed

lemma acc_owned_step:
  "acc_owned cfg (em, ew, s) \<Longrightarrow> step_ok cfg s s' \<Longrightarrow> acc_owned cfg (em, ew, s')"
  by (auto simp: acc_owned_def step_ok_wf split: option.splits
           dest: step_ok_marker_owned step_ok_widget_owned)

lemma mark_range_ok:
  assumes wf: "wf_state s"
  shows "step_ok cfg s (outcome_state (mark_range cfg ed r s))"
proof (cases "getLine (ed_lines ed) (br_to r)")
  case None
  with wf show ?thesis by (simp add: mark_range_def step_ok_refl)
next
  case (Some toText)
  define frm where "frm = \<lparr>pos_line = br_from r, pos_ch = 0\<rparr>"
  define too where "too = \<lparr>pos_line = br_to r, pos_ch = int (length toText)\<rparr>"
  obtain em ew s1 where cm:
    "check_marks cfg frm too (findMarks s frm too) (None, None, s) = (em, ew, s1)"
    by (cases "check_marks cfg frm too (findMarks s frm too) (None, None, s)") auto
  have init: "acc_owned cfg (None, None, s)" using wf by (simp add: acc_owned_def)
  have "\<forall>m\<in>set (findMarks s frm too).
          tm_className m = MARKER_CLASS_NAME cfg \<longrightarrow> marker_owned cfg s (tm_id m)"
    using wf by (auto simp: findMarks_def intro: marker_owned_member)
  from check_marks_ok [OF init this cm]
  have c1: "step_ok cfg s s1" and a1: "acc_owned cfg (em, ew, s1)" by simp_all
  define s2 where "s2 = sweep_widgets cfg [pos_line frm .. pos_line too - 1] s1"
  have c2: "step_ok cfg s1 s2"
    unfolding s2_def by (rule sweep_widgets_ok [OF step_ok_wf [OF c1]])
  from acc_owned_step [OF a1 c2] have a2: "acc_owned cfg (em, ew, s2)" .
  from c1 c2 have c12: "step_ok cfg s s2" by (rule step_ok_trans)
  have "step_ok cfg s2 (outcome_state (mark_range cfg ed r s))"
    using Some cm selected_outside_ok [OF a2]
      cursor_outside_ok [OF step_ok_wf [OF c2], of cfg r frm too _ em]
      cursor_inside_ok [OF a2, of r frm too]
    by (simp add: mark_range_def Let_def frm_def [symmetric] too_def [symmetric]
          s2_def [symmetric])
  with c12 show ?thesis by (rule step_ok_trans)
qed

lemma markRanges_ok:
  "wf_state s \<Longrightarrow> step_ok cfg s (outcome_state (markRanges cfg ed rs s))"
proof (induction rs arbitrary: s)
  case Nil
  then show ?case by (simp add: step_ok_refl)
next
  case (Cons r rs)
  from mark_range_ok [OF Cons.prems, of cfg ed r]
  have c: "step_ok cfg s (outcome_state (mark_range cfg ed r s))" .
  show ?case
  proof (cases "mark_range cfg ed r s")
    case (Done s')
    with c have c': "step_ok cfg s s'" by simp
    from Cons.IH [OF step_ok_wf [OF c']] c' Done show ?thesis
      by (auto intro: step_ok_trans)
  next
    case (Threw e s')
    with c show ?thesis by simp
  qed
qed

lemma step_ok_lastIndex:
  "wf_state s \<Longrightarrow> step_ok cfg s (s\<lparr>st_startLastIndex := a, st_endLastIndex := b\<rparr>)"
  by (simp add: step_ok_def wf_state_def foreign_markers_def foreign_widgets_def
        marker_owned_def widget_owned_def)

text \<open>
  Claim C9. A pass changes only decorations that bear the identifiers of the engine. In
  every store in which the objects have distinct identities, and whether the pass returns
  or throws: the markers whose class name is not the configured class tag are the same
  before and after the pass, the line widgets whose class name is not the derived
  line-widget class name are the same before and after, and so every marker or widget that
  is in the store after the pass and was not there before bears the identifier of the
  engine.
\<close>

theorem process_frame:
  assumes "wf_state s"
  shows "foreign_markers cfg (outcome_state (process cfg ed afterSetValue s)) = foreign_markers cfg s
       \<and> foreign_widgets cfg (outcome_state (process cfg ed afterSetValue s)) = foreign_widgets cfg s
       \<and> (\<forall>m\<in>set (st_markers (outcome_state (process cfg ed afterSetValue s))).
            m \<notin> set (st_markers s) \<longrightarrow> tm_className m = MARKER_CLASS_NAME cfg)
       \<and> (\<forall>w\<in>set (st_widgets (outcome_state (process cfg ed afterSetValue s))).
            w \<notin> set (st_widgets s) \<longrightarrow> lw_className w = lineWidgetClassName cfg)"
proof -
  have "step_ok cfg s (outcome_state (process cfg ed afterSetValue s))"
  proof (cases "process_scan (blockStartTokenRegexp cfg) (blockEndTokenRegex cfg) (ed_lines ed)
             (ed_viewport_from ed) (ed_viewport_to ed) afterSetValue
             (st_startLastIndex s) (st_endLastIndex s)")
    case (Inl a)
    then show ?thesis
      using step_ok_lastIndex [OF assms]
      by (cases a) (simp add: process_def)
  next
    case (Inr st)
    define s' where "s' = s\<lparr>st_startLastIndex := startLastIndex st,
                             st_endLastIndex := endLastIndex st\<rparr>"
    have c: "step_ok cfg s s'" unfolding s'_def by (rule step_ok_lastIndex [OF assms])
    from markRanges_ok [OF step_ok_wf [OF c], of cfg ed "blockRangeList st"] c
    have "step_ok cfg s (outcome_state (markRanges cfg ed (blockRangeList st) s'))"
      by (rule step_ok_trans [rotated])
    with Inr c show ?thesis
      by (simp add: process_def Let_def s'_def [symmetric])
  qed
  then have fm: "foreign_markers cfg (outcome_state (process cfg ed afterSetValue s))
                 = foreign_markers cfg s"
    and fw: "foreign_widgets cfg (outcome_state (process cfg ed afterSetValue s))
                 = foreign_widgets cfg s"
    by (simp_all add: step_ok_def)
  have "tm_className m = MARKER_CLASS_NAME cfg"
    if "m \<in> set (st_markers (outcome_state (process cfg ed afterSetValue s)))"
      "m \<notin> set (st_markers s)" for m
  proof (rule ccontr)
    assume "tm_className m \<noteq> MARKER_CLASS_NAME cfg"
    with that(1) have "m \<in> set (foreign_markers cfg (outcome_state (process cfg ed afterSetValue s)))"
      by (simp add: foreign_markers_def)
    with fm have "m \<in> set (st_markers s)" by (simp add: foreign_markers_def)
    with that(2) show False by simp
  qed
  moreover have "lw_className w = lineWidgetClassName cfg"
    if "w \<in> set (st_widgets (outcome_state (process cfg ed afterSetValue s)))"
      "w \<notin> set (st_widgets s)" for w
  proof (rule ccontr)
    assume "lw_className w \<noteq> lineWidgetClassName cfg"
    with that(1) have "w \<in> set (foreign_widgets cfg (outcome_state (process cfg ed afterSetValue s)))"
      by (simp add: foreign_widgets_def)
    with fw have "w \<in> set (st_widgets s)" by (simp add: foreign_widgets_def)
    with that(2) show False by simp
  qed
  ultimately show ?thesis using fm fw by blast
qed

theorem process_frame_witness:
  "wf_state mixed_state
   \<and> foreign_markers (recording_config (literal ''<<<BEGIN'' False) (literal ''END>>>'' False) True)
       (outcome_state
          (process (recording_config (literal ''<<<BEGIN'' False) (literal ''END>>>'' False) True)
             (editor_of sample_doc 0 6 5) False mixed_state))
     = [\<lparr>tm_id = 2, tm_className = ''other'', tm_from = \<lparr>pos_line = 1, pos_ch = 0\<rparr>,
          tm_to = \<lparr>pos_line = 4, pos_ch = 6\<rparr>, tm_replacedWith = None,
          tm_onclick = False\<rparr>]
   \<and> foreign_widgets (recording_config (literal ''<<<BEGIN'' False) (literal ''END>>>'' False) True)
       (outcome_state
          (process (recording_config (literal ''<<<BEGIN'' False) (literal ''END>>>'' False) True)
             (editor_of sample_doc 0 6 5) False mixed_state))
     = [\<lparr>lw_id = 3, lw_line = 4, lw_className = ''other-line-widget'', lw_node = []\<rparr>]"
proof -
  have wf: "wf_state mixed_state"
    by (simp add: wf_state_def mixed_state_def)
  from process_frame [OF wf,
      of "recording_config (literal ''<<<BEGIN'' False) (literal ''END>>>'' False) True"
         "editor_of sample_doc 0 6 5" False]
  show ?thesis
    using wf
    by (simp add: foreign_markers_def foreign_widgets_def mixed_state_def recording_config_def
          lineWidgetClassName_def)
qed

section \<open>A renderer that throws\<close>




lemma widget_ids_clear_marker [simp]: "widget_ids (clear_marker i s) = widget_ids s"
  by (simp add: widget_ids_def clear_marker_def)






lemma widget_ids_empty_node [simp]: "widget_ids (empty_node i s) = widget_ids s"
  by (simp add: widget_ids_def empty_node_def o_def if_distrib cong: if_cong)







section \<open>Reasoning about one block range\<close>

subsection \<open>Fields after the operations of the host\<close>

lemma filter_id_notin: "i \<notin> f ` set xs \<Longrightarrow> filter (\<lambda>x. f x \<noteq> i) xs = xs"
  by (induction xs) auto

lemma clear_marker_fields [simp]:
  "st_markers (clear_marker i s) = filter (\<lambda>m. tm_id m \<noteq> i) (st_markers s)"
  "st_widgets (clear_marker i s) = st_widgets s"
  "st_next_id (clear_marker i s) = st_next_id s"
  "st_startLastIndex (clear_marker i s) = st_startLastIndex s"
  "st_endLastIndex (clear_marker i s) = st_endLastIndex s"
  by (auto simp: clear_marker_def filter_id_notin)

lemma clear_widget_fields [simp]:
  "st_markers (clear_widget i s) = st_markers s"
  "st_widgets (clear_widget i s) = filter (\<lambda>w. lw_id w \<noteq> i) (st_widgets s)"
  "st_next_id (clear_widget i s) = st_next_id s"
  "st_startLastIndex (clear_widget i s) = st_startLastIndex s"
  "st_endLastIndex (clear_widget i s) = st_endLastIndex s"
  by (auto simp: clear_widget_def filter_id_notin)

lemma wf_clear_marker [simp]: "wf_state s \<Longrightarrow> wf_state (clear_marker i s)"
  by (auto simp: wf_state_def distinct_map_filter list_all_iff)

lemma wf_clear_widget [simp]: "wf_state s \<Longrightarrow> wf_state (clear_widget i s)"
  by (auto simp: wf_state_def distinct_map_filter list_all_iff)

lemma find_filter_hd: "find P xs = (case filter P xs of [] \<Rightarrow> None | x # _ \<Rightarrow> Some x)"
  by (induction xs) auto

lemma findLineWidgetAtLine_class:
  "findLineWidgetAtLine s n (lineWidgetClassName cfg) =
     (case class_widgets_at cfg s n of [] \<Rightarrow> None | w # _ \<Rightarrow> Some w)"
  by (simp add: findLineWidgetAtLine_def class_widgets_at_def find_filter_hd)

lemma filter_other_id_eq:
  assumes "distinct (map f xs)" "x \<in> set xs"
  shows "filter (\<lambda>y. f y \<noteq> f x) xs = filter (\<lambda>y. y \<noteq> x) xs"
proof (rule filter_cong [OF refl])
  fix y assume "y \<in> set xs"
  from assms(1) have "inj_on f (set xs)" by (simp add: distinct_map)
  with \<open>y \<in> set xs\<close> assms(2) show "(f y \<noteq> f x) = (y \<noteq> x)" by (auto dest: inj_onD)
qed

text \<open>Markers without the class tag are skipped by the callback.\<close>

lemma check_mark_foreign:
  "tm_className m \<noteq> MARKER_CLASS_NAME cfg \<Longrightarrow> check_mark cfg from to m acc = acc"
  by (cases acc) (simp add: check_mark_def)

lemma check_marks_tagged:
  "check_marks cfg from to ms acc =
   check_marks cfg from to (filter (\<lambda>m. tm_className m = MARKER_CLASS_NAME cfg) ms) acc"
  by (induction ms arbitrary: acc) (auto simp: check_mark_foreign)

lemma check_marks_found:
  "check_marks cfg from to (findMarks s from to) acc =
   check_marks cfg from to (tagged_found cfg s from to) acc"
  unfolding tagged_found_def by (rule check_marks_tagged)

text \<open>The sweep leaves the markers alone, and the widgets on a line it does not visit.\<close>

lemma sweep_fields [simp]:
  "st_markers (sweep_widgets cfg ns s) = st_markers s"
  "st_next_id (sweep_widgets cfg ns s) = st_next_id s"
  "st_startLastIndex (sweep_widgets cfg ns s) = st_startLastIndex s"
  "st_endLastIndex (sweep_widgets cfg ns s) = st_endLastIndex s"
  by (induction ns arbitrary: s; simp split: option.splits)+

lemma wf_sweep [simp]: "wf_state s \<Longrightarrow> wf_state (sweep_widgets cfg ns s)"
  by (induction ns arbitrary: s) (auto split: option.splits)

lemma class_widgets_at_clear_other:
  assumes "wf_state s" "w \<in> set (st_widgets s)" "lw_line w \<noteq> n"
  shows "class_widgets_at cfg (clear_widget (lw_id w) s) n = class_widgets_at cfg s n"
proof -
  from assms(1) have d: "distinct (map lw_id (st_widgets s))" by (simp add: wf_state_def)
  show ?thesis
    using assms(3)
    by (auto simp: class_widgets_at_def filter_other_id_eq [OF d assms(2)] intro: filter_cong)
qed

lemma find_widget_member:
  "findLineWidgetAtLine s n cls = Some w \<Longrightarrow>
   w \<in> set (st_widgets s) \<and> lw_line w = n \<and> lw_className w = cls"
  by (auto simp: findLineWidgetAtLine_def dest: find_Some_member)

lemma sweep_other_line:
  "wf_state s \<Longrightarrow> n \<notin> set ns \<Longrightarrow>
   class_widgets_at cfg (sweep_widgets cfg ns s) n = class_widgets_at cfg s n"
proof (induction ns arbitrary: s)
  case Nil
  show ?case by simp
next
  case (Cons k ns)
  show ?case
  proof (cases "findLineWidgetAtLine s k (lineWidgetClassName cfg)")
    case None
    with Cons show ?thesis by simp
  next
    case (Some w)
    from find_widget_member [OF Some] Cons.prems(2)
    have "w \<in> set (st_widgets s)" "lw_line w \<noteq> n" by auto
    from class_widgets_at_clear_other [OF Cons.prems(1) this]
    have "class_widgets_at cfg (clear_widget (lw_id w) s) n = class_widgets_at cfg s n" .
    with Cons.IH [of "clear_widget (lw_id w) s"] Cons.prems Some show ?thesis by simp
  qed
qed

lemma sweep_nothing:
  "\<forall>n\<in>set ns. class_widgets_at cfg s n = [] \<Longrightarrow> sweep_widgets cfg ns s = s"
  by (induction ns arbitrary: s) (auto simp: findLineWidgetAtLine_class)


subsection \<open>The check of the existing decoration\<close>

lemma tagged_found_markers:
  "tagged_found cfg s from to =
     filter (\<lambda>m. marker_found from to m \<and> tm_className m = MARKER_CLASS_NAME cfg) (st_markers s)"
  by (simp add: tagged_found_def findMarks_def conj_commute)

lemma tagged_found_member:
  "m \<in> set (tagged_found cfg s from to) \<Longrightarrow>
   m \<in> set (st_markers s) \<and> tm_className m = MARKER_CLASS_NAME cfg"
  by (simp add: tagged_found_markers)

text \<open>With at most one tagged marker on the block and at most one widget of the class on
  its last line: the state after the callback, with \<open>existingMarker\<close> cleared as the
  cursor-inside branch does.\<close>

lemma existing_check_result:
  assumes wf: "wf_state s"
    and t: "pos_line t = br_to r" and f: "pos_line f = br_from r"
    and one_marker: "length (tagged_found cfg s f t) \<le> 1"
    and one_widget: "length (class_widgets_at cfg s (br_to r)) \<le> 1"
    and cm: "check_marks cfg f t (findMarks s f t) (None, None, s) = (em, ew, s1)"
  shows "wf_state s1 \<and> st_next_id s1 = st_next_id s
       \<and> st_markers (case em of None \<Rightarrow> s1 | Some m \<Rightarrow> clear_marker m s1)
         = filter (\<lambda>x. x \<notin> set (tagged_found cfg s f t)) (st_markers s)
       \<and> class_widgets_at cfg s1 (br_to r)
         = (if list_all (span_matches r) (tagged_found cfg s f t)
            then class_widgets_at cfg s (br_to r) else [])"
proof (cases "tagged_found cfg s f t")
  case Nil
  with cm have "em = None" "s1 = s" by (simp_all add: check_marks_found)
  with wf Nil show ?thesis by simp
next
  case (Cons m rest)
  with one_marker have tf: "tagged_found cfg s f t = [m]" by simp
  from tagged_found_member [of m cfg s f t] tf
  have mem: "m \<in> set (st_markers s)" and tag: "tm_className m = MARKER_CLASS_NAME cfg"
    by simp_all
  from wf have d: "distinct (map tm_id (st_markers s))" by (simp add: wf_state_def)
  have rm: "filter (\<lambda>x. tm_id x \<noteq> tm_id m) (st_markers s)
            = filter (\<lambda>x. x \<notin> set (tagged_found cfg s f t)) (st_markers s)"
    by (simp add: filter_other_id_eq [OF d mem] tf)
  from cm tf have c1: "check_mark cfg f t m (None, None, s) = (em, ew, s1)"
    by (simp add: check_marks_found)
  show ?thesis
  proof (cases "class_widgets_at cfg s (br_to r)")
    case Nil
    with c1 tag t have "em = None" "s1 = clear_marker (tm_id m) s"
      by (auto simp: check_mark_def findLineWidgetAtLine_class Let_def split: if_splits)
    with wf rm Nil show ?thesis by (simp add: class_widgets_at_def)
  next
    case (Cons w0 ws)
    with one_widget have W: "class_widgets_at cfg s (br_to r) = [w0]" by simp
    show ?thesis
    proof (cases "span_matches r m")
      case True
      with c1 tag t f W have "em = Some (tm_id m)" "s1 = s"
        by (auto simp: check_mark_def findLineWidgetAtLine_class Let_def span_matches_def
                 split: if_splits)
      with wf rm tf True show ?thesis by simp
    next
      case False
      with c1 tag t f W have e: "em = Some (tm_id m)"
        "s1 = clear_widget (lw_id w0) (clear_marker (tm_id m) s)"
        by (auto simp: check_mark_def findLineWidgetAtLine_class Let_def span_matches_def
                 split: if_splits)
      have "filter (\<lambda>w. lw_id w \<noteq> lw_id w0) (class_widgets_at cfg s (br_to r)) = []"
        by (simp add: W)
      then have cw: "class_widgets_at cfg s1 (br_to r) = []"
        by (simp add: e class_widgets_at_def conj_commute)
      have "st_markers (clear_marker (tm_id m) s1)
            = filter (\<lambda>x. tm_id x \<noteq> tm_id m) (st_markers s)"
        by (simp add: e)
      with rm have mk: "st_markers (clear_marker (tm_id m) s1)
            = filter (\<lambda>x. x \<notin> set (tagged_found cfg s f t)) (st_markers s)" by simp
      have "\<not> list_all (span_matches r) (tagged_found cfg s f t)"
        using False by (simp add: tf)
      moreover have "wf_state s1" "st_next_id s1 = st_next_id s" using wf by (simp_all add: e)
      ultimately show ?thesis using mk cw by (simp add: e(1))
    qed
  qed
qed


subsection \<open>The cursor inside the range\<close>

lemma rebuild_widgets:
  "st_widgets (append_child i c (empty_node i s))
   = map (\<lambda>w. if lw_id w = i then w\<lparr>lw_node := [c]\<rparr> else w) (st_widgets s)"
  by (simp add: append_child_def empty_node_def o_def if_distrib cong: if_cong)

lemma rebuild_markers [simp]:
  "st_markers (append_child i c (empty_node i s)) = st_markers s"
  by (simp add: append_child_def empty_node_def)

lemma class_widgets_at_rebuild:
  "class_widgets_at cfg (append_child i c (empty_node i s)) n
   = map (\<lambda>w. if lw_id w = i then w\<lparr>lw_node := [c]\<rparr> else w) (class_widgets_at cfg s n)"
  by (simp add: class_widgets_at_def rebuild_widgets filter_map o_def if_distrib cong: if_cong)

lemma class_widgets_at_add:
  "class_widgets_at cfg (snd (addLineWidget n node (lineWidgetClassName cfg) s)) n
   = class_widgets_at cfg s n
     @ [\<lparr>lw_id = st_next_id s, lw_line = n, lw_className = lineWidgetClassName cfg,
         lw_node = node\<rparr>]"
  by (simp add: class_widgets_at_def addLineWidget_def Let_def)

lemma addLineWidget_markers [simp]:
  "st_markers (snd (addLineWidget n node cls s)) = st_markers s"
  by (simp add: addLineWidget_def Let_def)

lemma class_widgets_at_clear_marker [simp]:
  "class_widgets_at cfg (clear_marker i s) n = class_widgets_at cfg s n"
  by (simp add: class_widgets_at_def)

lemma class_widgets_at_clear_widget:
  "class_widgets_at cfg (clear_widget i s) n
   = filter (\<lambda>w. lw_id w \<noteq> i) (class_widgets_at cfg s n)"
  by (simp add: class_widgets_at_def conj_commute)

lemma cursor_inside_result:
  assumes t: "pos_line t = br_to r"
    and one: "length (class_widgets_at cfg s2 (br_to r)) \<le> 1"
    and res: "cursor_inside cfg r f t content em s2 = Done s'"
  shows "st_markers s' = st_markers (case em of None \<Rightarrow> s2 | Some m \<Rightarrow> clear_marker m s2)
       \<and> (renderWhenEditing cfg \<longrightarrow>
            (\<exists>w element.
               class_widgets_at cfg s' (br_to r) = [w] \<and>
               renderer cfg (br_beginMatch r) (br_endMatch r) content (pos_line f) (pos_line t)
                 = Some element \<and>
               lw_node w = [Rendered element] \<and>
               (case class_widgets_at cfg s2 (br_to r) of
                  [] \<Rightarrow> lw_id w = st_next_id s2
                | w0 # ws \<Rightarrow> lw_id w = lw_id w0)))
       \<and> (\<not> renderWhenEditing cfg \<longrightarrow> class_widgets_at cfg s' (br_to r) = [])"
proof -
  define s3 where "s3 = (case em of None \<Rightarrow> s2 | Some m \<Rightarrow> clear_marker m s2)"
  have W3: "class_widgets_at cfg s3 (br_to r) = class_widgets_at cfg s2 (br_to r)"
    and n3: "st_next_id s3 = st_next_id s2"
    by (simp_all add: s3_def split: option.splits)
  show ?thesis
  proof (cases "class_widgets_at cfg s2 (br_to r)")
    case Nil
    with W3 t have fnd: "findLineWidgetAtLine s3 (pos_line t) (lineWidgetClassName cfg) = None"
      by (simp add: findLineWidgetAtLine_class)
    show ?thesis
    proof (cases "renderWhenEditing cfg")
      case False
      with res fnd have "s' = s3" by (simp add: cursor_inside_def s3_def [symmetric])
      with False W3 Nil show ?thesis by (simp add: s3_def)
    next
      case True
      with res fnd obtain element where
        el: "renderer cfg (br_beginMatch r) (br_endMatch r) content (pos_line f) (pos_line t)
             = Some element"
        and s': "s' = snd (addLineWidget (pos_line t) [Rendered element]
                             (lineWidgetClassName cfg) s3)"
        by (auto simp: cursor_inside_def s3_def [symmetric] split: option.splits)
      from s' t W3 Nil n3 have
        "class_widgets_at cfg s' (br_to r)
         = [\<lparr>lw_id = st_next_id s2, lw_line = br_to r,
             lw_className = lineWidgetClassName cfg, lw_node = [Rendered element]\<rparr>]"
        by (simp add: class_widgets_at_add)
      with True el s' Nil show ?thesis by (simp add: s3_def)
    qed
  next
    case (Cons w0 ws)
    with one have W: "class_widgets_at cfg s2 (br_to r) = [w0]" by simp
    with W3 t have fnd: "findLineWidgetAtLine s3 (pos_line t) (lineWidgetClassName cfg) = Some w0"
      by (simp add: findLineWidgetAtLine_class)
    show ?thesis
    proof (cases "renderWhenEditing cfg")
      case False
      with res fnd have s': "s' = clear_widget (lw_id w0) s3"
        by (simp add: cursor_inside_def s3_def [symmetric])
      with W3 W have "class_widgets_at cfg s' (br_to r) = []"
        by (simp add: class_widgets_at_clear_widget)
      with False s' show ?thesis by (simp add: s3_def)
    next
      case True
      with res fnd obtain element where
        el: "renderer cfg (br_beginMatch r) (br_endMatch r) content (pos_line f) (pos_line t)
             = Some element"
        and s': "s' = append_child (lw_id w0) (Rendered element) (empty_node (lw_id w0) s3)"
        by (auto simp: cursor_inside_def s3_def [symmetric] Let_def split: option.splits)
      from s' W3 W have
        "class_widgets_at cfg s' (br_to r) = [w0\<lparr>lw_node := [Rendered element]\<rparr>]"
        by (simp add: class_widgets_at_rebuild)
      with True el s' W show ?thesis by (simp add: s3_def)
    qed
  qed
qed

text \<open>The loop body on a block range with the cursor inside, in a store that holds at
  most one marker of the engine on the block and at most one widget of the engine on its
  last line.\<close>

lemma cursor_inside_range:
  assumes wf: "wf_state s"
    and inside: "br_from r \<le> pos_line (ed_cursor ed)" "pos_line (ed_cursor ed) \<le> br_to r"
    and one_marker: "length (tagged_found cfg s (from_pos r) (to_pos ed r)) \<le> 1"
    and one_widget: "length (class_widgets_at cfg s (br_to r)) \<le> 1"
    and res: "mark_range cfg ed r s = Done s'"
  shows "tagged_found cfg s' (from_pos r) (to_pos ed r) = []
       \<and> set (st_markers s') \<subseteq> set (st_markers s)
       \<and> (renderWhenEditing cfg \<longrightarrow>
            (\<exists>w element.
               class_widgets_at cfg s' (br_to r) = [w] \<and>
               renderer cfg (br_beginMatch r) (br_endMatch r)
                 (blockContent ed (br_from r) (br_to r)) (br_from r) (br_to r) = Some element \<and>
               lw_node w = [Rendered element] \<and>
               (class_widgets_at cfg s (br_to r) = [] \<longrightarrow> lw_id w = st_next_id s) \<and>
               (class_widgets_at cfg s (br_to r) \<noteq> [] \<and>
                list_all (span_matches r) (tagged_found cfg s (from_pos r) (to_pos ed r)) \<longrightarrow>
                  lw_id w = lw_id (hd (class_widgets_at cfg s (br_to r))))))
       \<and> (\<not> renderWhenEditing cfg \<longrightarrow> class_widgets_at cfg s' (br_to r) = [])"
proof -
  from res obtain toText where line: "getLine (ed_lines ed) (br_to r) = Some toText"
    by (cases "getLine (ed_lines ed) (br_to r)") (auto simp: mark_range_def)
  define f where "f = from_pos r"
  define t where "t = to_pos ed r"
  have f: "f = \<lparr>pos_line = br_from r, pos_ch = 0\<rparr>" by (simp add: f_def from_pos_def)
  have t: "t = \<lparr>pos_line = br_to r, pos_ch = int (length toText)\<rparr>"
    by (simp add: t_def to_pos_def line)
  have fl: "pos_line f = br_from r" and tl: "pos_line t = br_to r" by (simp_all add: f t)
  from inside have out: "\<not> isCursorOutRange (ed_cursor ed) f t"
    by (simp add: isCursorOutRange_def fl tl)
  obtain em ew s1 where cm:
    "check_marks cfg f t (findMarks s f t) (None, None, s) = (em, ew, s1)"
    by (cases "check_marks cfg f t (findMarks s f t) (None, None, s)") auto
  define s2 where "s2 = sweep_widgets cfg [pos_line f .. pos_line t - 1] s1"
  from res line cm out have ci:
    "cursor_inside cfg r f t (blockContent ed (pos_line f) (pos_line t)) em s2 = Done s'"
    by (simp add: mark_range_def Let_def f [symmetric] t [symmetric] s2_def [symmetric])
  from existing_check_result [OF wf tl fl one_marker [folded f_def t_def] one_widget cm]
  have wf1: "wf_state s1" and n1: "st_next_id s1 = st_next_id s"
    and mk: "st_markers (case em of None \<Rightarrow> s1 | Some m \<Rightarrow> clear_marker m s1)
             = filter (\<lambda>x. x \<notin> set (tagged_found cfg s f t)) (st_markers s)"
    and W1: "class_widgets_at cfg s1 (br_to r)
             = (if list_all (span_matches r) (tagged_found cfg s f t)
                then class_widgets_at cfg s (br_to r) else [])"
    by simp_all
  have W2: "class_widgets_at cfg s2 (br_to r) = class_widgets_at cfg s1 (br_to r)"
    unfolding s2_def by (rule sweep_other_line [OF wf1]) (simp add: tl)
  have n2: "st_next_id s2 = st_next_id s" by (simp add: s2_def n1)
  have mk2: "st_markers (case em of None \<Rightarrow> s2 | Some m \<Rightarrow> clear_marker m s2)
             = filter (\<lambda>x. x \<notin> set (tagged_found cfg s f t)) (st_markers s)"
    using mk by (simp add: s2_def split: option.splits)
  from W1 W2 one_widget have one2: "length (class_widgets_at cfg s2 (br_to r)) \<le> 1"
    by (simp split: if_splits)
  from cursor_inside_result [OF tl one2 ci]
  have m': "st_markers s' = filter (\<lambda>x. x \<notin> set (tagged_found cfg s f t)) (st_markers s)"
    and rw: "renderWhenEditing cfg \<longrightarrow>
            (\<exists>w element.
               class_widgets_at cfg s' (br_to r) = [w] \<and>
               renderer cfg (br_beginMatch r) (br_endMatch r)
                 (blockContent ed (pos_line f) (pos_line t)) (pos_line f) (pos_line t)
                 = Some element \<and>
               lw_node w = [Rendered element] \<and>
               (case class_widgets_at cfg s2 (br_to r) of
                  [] \<Rightarrow> lw_id w = st_next_id s2
                | w0 # ws \<Rightarrow> lw_id w = lw_id w0))"
    and nrw: "\<not> renderWhenEditing cfg \<longrightarrow> class_widgets_at cfg s' (br_to r) = []"
    using mk2 by simp_all
  have "tagged_found cfg s' f t
        = filter (\<lambda>x. x \<notin> set (tagged_found cfg s f t)) (tagged_found cfg s f t)"
    by (simp add: tagged_found_markers [of cfg s'] m')
       (simp add: tagged_found_markers conj_commute)
  then have c1: "tagged_found cfg s' f t = []" by simp
  from m' have c2: "set (st_markers s') \<subseteq> set (st_markers s)" by auto
  have c3: "renderWhenEditing cfg \<longrightarrow>
            (\<exists>w element.
               class_widgets_at cfg s' (br_to r) = [w] \<and>
               renderer cfg (br_beginMatch r) (br_endMatch r)
                 (blockContent ed (br_from r) (br_to r)) (br_from r) (br_to r) = Some element \<and>
               lw_node w = [Rendered element] \<and>
               (class_widgets_at cfg s (br_to r) = [] \<longrightarrow> lw_id w = st_next_id s) \<and>
               (class_widgets_at cfg s (br_to r) \<noteq> [] \<and>
                list_all (span_matches r) (tagged_found cfg s f t) \<longrightarrow>
                  lw_id w = lw_id (hd (class_widgets_at cfg s (br_to r)))))"
  proof
    assume "renderWhenEditing cfg"
    with rw obtain w element where
      a: "class_widgets_at cfg s' (br_to r) = [w]"
      and b: "renderer cfg (br_beginMatch r) (br_endMatch r)
                 (blockContent ed (br_from r) (br_to r)) (br_from r) (br_to r) = Some element"
      and c: "lw_node w = [Rendered element]"
      and d: "case class_widgets_at cfg s2 (br_to r) of
                  [] \<Rightarrow> lw_id w = st_next_id s2
                | w0 # ws \<Rightarrow> lw_id w = lw_id w0"
      by (auto simp: fl tl)
    from d W1 W2 n2 have
      "class_widgets_at cfg s (br_to r) = [] \<longrightarrow> lw_id w = st_next_id s"
      "class_widgets_at cfg s (br_to r) \<noteq> [] \<and>
       list_all (span_matches r) (tagged_found cfg s f t) \<longrightarrow>
         lw_id w = lw_id (hd (class_widgets_at cfg s (br_to r)))"
      by (auto split: list.splits if_splits)
    with a b c show "\<exists>w element.
               class_widgets_at cfg s' (br_to r) = [w] \<and>
               renderer cfg (br_beginMatch r) (br_endMatch r)
                 (blockContent ed (br_from r) (br_to r)) (br_from r) (br_to r) = Some element \<and>
               lw_node w = [Rendered element] \<and>
               (class_widgets_at cfg s (br_to r) = [] \<longrightarrow> lw_id w = st_next_id s) \<and>
               (class_widgets_at cfg s (br_to r) \<noteq> [] \<and>
                list_all (span_matches r) (tagged_found cfg s f t) \<longrightarrow>
                  lw_id w = lw_id (hd (class_widgets_at cfg s (br_to r))))"
      by blast
  qed
  from c1 c2 c3 nrw show ?thesis unfolding f_def t_def by blast
qed

section \<open>Blocks in their final state\<close>

subsection \<open>A settled block\<close>

lemma positions:
  "getLine (ed_lines ed) (br_to r) = Some toText \<Longrightarrow>
   \<lparr>pos_line = br_from r, pos_ch = 0\<rparr> = from_pos r \<and>
   \<lparr>pos_line = br_to r, pos_ch = int (length toText)\<rparr> = to_pos ed r"
  by (simp add: from_pos_def to_pos_def)

lemma pos_lines [simp]:
  "pos_line (from_pos r) = br_from r" "pos_line (to_pos ed r) = br_to r"
  by (simp_all add: from_pos_def to_pos_def)

lemma mark_range_unfold:
  assumes "getLine (ed_lines ed) (br_to r) = Some toText"
    and "check_marks cfg (from_pos r) (to_pos ed r)
           (tagged_found cfg s (from_pos r) (to_pos ed r)) (None, None, s) = (em, ew, s1)"
  shows "mark_range cfg ed r s =
     (let s2 = sweep_widgets cfg [br_from r .. br_to r - 1] s1;
          content = blockContent ed (br_from r) (br_to r)
      in if ed_isRangeSelected ed (from_pos r) (to_pos ed r) \<and>
            isCursorOutRange (ed_cursor ed) (from_pos r) (to_pos ed r)
         then selected_outside em ew s2
         else if isCursorOutRange (ed_cursor ed) (from_pos r) (to_pos ed r)
         then cursor_outside cfg r (from_pos r) (to_pos ed r) content em s2
         else cursor_inside cfg r (from_pos r) (to_pos ed r) content em s2)"
  using assms positions [OF assms(1)]
  by (simp add: mark_range_def check_marks_found Let_def)

lemma rebuild_same:
  assumes "distinct (map lw_id ws)" "w \<in> set ws" "lw_node w = [c]"
  shows "map (\<lambda>x. if lw_id x = lw_id w then x\<lparr>lw_node := [c]\<rparr> else x) ws = ws"
proof (rule map_idI)
  fix x assume x: "x \<in> set ws"
  from assms(1) have "inj_on lw_id (set ws)" by (simp add: distinct_map)
  with x assms(2) have "lw_id x = lw_id w \<Longrightarrow> x = w" by (auto dest: inj_onD)
  with assms(3) show "(if lw_id x = lw_id w then x\<lparr>lw_node := [c]\<rparr> else x) = x" by auto
qed

lemma rebuild_state:
  "append_child i c (empty_node i s)
   = s\<lparr>st_widgets := map (\<lambda>w. if lw_id w = i then w\<lparr>lw_node := [c]\<rparr> else w) (st_widgets s),
       st_mutations := st_mutations s @ [NodeEmptied i, NodeAppended i]\<rparr>"
  by (simp add: append_child_def empty_node_def o_def if_distrib cong: if_cong)

lemma class_widget_member:
  "class_widgets_at cfg s n = w # ws \<Longrightarrow> w \<in> set (st_widgets s)"
proof -
  assume "class_widgets_at cfg s n = w # ws"
  then have "w \<in> set (class_widgets_at cfg s n)" by simp
  then show ?thesis by (simp add: class_widgets_at_def)
qed

subsection \<open>A block without decorations\<close>

lemma map_upd_fresh:
  "\<forall>x\<in>set xs. f x \<noteq> i \<Longrightarrow> map (\<lambda>x. if f x = i then g x else x) xs = xs"
  by (induction xs) auto

lemma marker_found_exact:
  assumes "br_from r < br_to r" "tm_from m = from_pos r" "tm_to m = to_pos ed r"
  shows "marker_found (from_pos r) (to_pos ed r) m"
  using assms by (simp add: marker_found_def span_found_def)

lemma pos_less_range:
  "br_from r < br_to r \<Longrightarrow> pos_less (from_pos r) (to_pos ed r)"
  by (simp add: pos_less_def)

lemma clean_result:
  assumes wf: "wf_state s" and cl: "clean cfg ed r s" and lt: "br_from r < br_to r"
    and res: "mark_range cfg ed r s = Done s'"
  shows "wf_state s' \<and> settled cfg ed r s' \<and> added cfg ed r s s'"
proof -
  from res obtain toText where line: "getLine (ed_lines ed) (br_to r) = Some toText"
    by (cases "getLine (ed_lines ed) (br_to r)") (auto simp: mark_range_def)
  let ?f = "from_pos r" and ?t = "to_pos ed r"
  let ?sel = "ed_isRangeSelected ed ?f ?t" and ?out = "isCursorOutRange (ed_cursor ed) ?f ?t"
  let ?content = "blockContent ed (br_from r) (br_to r)"
  from cl have tf: "tagged_found cfg s ?f ?t = []"
    and all: "\<forall>n\<in>set [br_from r .. br_to r]. class_widgets_at cfg s n = []"
    by (simp_all add: clean_def list_all_iff)
  from all have inner: "\<forall>n\<in>set [br_from r .. br_to r - 1]. class_widgets_at cfg s n = []"
    by simp
  from all lt have Wt: "class_widgets_at cfg s (br_to r) = []" by simp
  note sw = sweep_nothing [OF inner]
  from tf have cm: "check_marks cfg ?f ?t (tagged_found cfg s ?f ?t) (None, None, s)
                    = (None, None, s)" by simp
  note unf = mark_range_unfold [OF line cm]
  have inner_l: "list_all (\<lambda>n. class_widgets_at cfg s n = []) [br_from r .. br_to r - 1]"
    using inner by (simp add: list_all_iff)
  have added_refl: "added cfg ed r s s"
    by (simp add: added_def)
  consider (sel) "?sel \<and> ?out" | (out) "\<not> ?sel" "?out" | (ins) "\<not> ?out" by blast
  then show ?thesis
  proof cases
    case sel
    with res have "s' = s" by (simp add: unf sw selected_outside_def)
    with wf sel tf line inner_l added_refl show ?thesis by (simp add: settled_def)
  next
    case ins
    show ?thesis
    proof (cases "renderWhenEditing cfg")
      case False
      with ins res Wt have "s' = s"
        by (simp add: unf sw cursor_inside_def findLineWidgetAtLine_class)
      with wf ins False tf Wt line inner_l added_refl show ?thesis by (simp add: settled_def)
    next
      case True
      with ins res Wt obtain element where
        el: "renderer cfg (br_beginMatch r) (br_endMatch r) ?content (br_from r) (br_to r)
             = Some element"
        and s': "s' = snd (addLineWidget (br_to r) [Rendered element]
                             (lineWidgetClassName cfg) s)"
        by (auto simp: unf sw cursor_inside_def findLineWidgetAtLine_class
                 split: option.splits)
      let ?w = "\<lparr>lw_id = st_next_id s, lw_line = br_to r,
                 lw_className = lineWidgetClassName cfg, lw_node = [Rendered element]\<rparr>"
      have ws: "st_widgets s' = st_widgets s @ [?w]" and ms: "st_markers s' = st_markers s"
        and li: "st_startLastIndex s' = st_startLastIndex s"
                "st_endLastIndex s' = st_endLastIndex s"
        and nx: "st_next_id s' = Suc (st_next_id s)"
        by (simp_all add: s' addLineWidget_def Let_def)
      from wf have wf': "wf_state s'"
        by (fastforce simp: wf_state_def ws ms nx list_all_iff)
      have tf': "tagged_found cfg s' ?f ?t = []"
        using tf by (simp add: tagged_found_markers ms)
      have Wt': "class_widgets_at cfg s' (br_to r) = [?w]"
        using Wt by (simp add: class_widgets_at_def ws)
      have inner': "list_all (\<lambda>n. class_widgets_at cfg s' n = []) [br_from r .. br_to r - 1]"
        using inner by (auto simp: list_all_iff class_widgets_at_def ws)
      have "added cfg ed r s s'"
        unfolding added_def
        by (rule exI [of _ "[]"], rule exI [of _ "[?w]"]) (simp add: ws ms li)
      with wf' ins True tf' Wt' inner' el line show ?thesis by (simp add: settled_def)
    qed
  next
    case out
    from out res Wt obtain markerEl element where
      sp: "spanRenderer cfg = Some markerEl"
      and el: "renderer cfg (br_beginMatch r) (br_endMatch r) ?content (br_from r) (br_to r)
               = Some element"
      by (auto simp: unf sw cursor_outside_def findLineWidgetAtLine_class
               split: option.splits prod.splits)
    let ?i = "st_next_id s"
    let ?marker = "\<lparr>tm_id = ?i, tm_className = MARKER_CLASS_NAME cfg, tm_from = ?f, tm_to = ?t,
                 tm_replacedWith = Some markerEl, tm_onclick = False\<rparr>"
    let ?m = "?marker\<lparr>tm_onclick := clearOnClick cfg\<rparr>"
    let ?widget = "\<lparr>lw_id = Suc ?i, lw_line = br_to r,
                 lw_className = lineWidgetClassName cfg, lw_node = [Rendered element]\<rparr>"
    let ?w = "?widget\<lparr>lw_node := [Rendered element, EditButton]\<rparr>"
    from wf have fresh_m: "\<forall>x\<in>set (st_markers s). tm_id x \<noteq> ?i"
      and fresh_w: "\<forall>x\<in>set (st_widgets s). lw_id x \<noteq> Suc ?i"
      by (auto simp: wf_state_def list_all_iff)
    from out res Wt sp el pos_less_range [OF lt, of ed]
    have s': "s' = setStyleAndLogical cfg ?i (Suc ?i)
                (s\<lparr>st_markers := st_markers s @ [?marker],
                   st_widgets := st_widgets s @ [?widget],
                   st_next_id := Suc (Suc ?i),
                   st_mutations := st_mutations s @ [MarkerAdded ?i, WidgetAdded (Suc ?i)]\<rparr>)"
      by (simp add: unf sw cursor_outside_def findLineWidgetAtLine_class markText_def
            addLineWidget_def Let_def)
    have ms: "st_markers s' = st_markers s @ [?m]"
      by (simp add: s' setStyleAndLogical_def map_upd_fresh [OF fresh_m])
    have ws: "st_widgets s' = st_widgets s @ [?w]"
      by (simp add: s' setStyleAndLogical_def map_upd_fresh [OF fresh_w])
    have li: "st_startLastIndex s' = st_startLastIndex s"
      "st_endLastIndex s' = st_endLastIndex s"
      and nx: "st_next_id s' = Suc (Suc ?i)"
      by (simp_all add: s' setStyleAndLogical_def)
    from wf have wf': "wf_state s'"
      by (fastforce simp: wf_state_def ws ms nx list_all_iff)
    have "marker_found ?f ?t ?m"
      by (rule marker_found_exact [OF lt]) simp_all
    then have tf': "tagged_found cfg s' ?f ?t = [?m]"
      using tf by (simp add: tagged_found_markers ms)
    have smm: "span_matches r ?m" by (simp add: span_matches_def)
    have Wt': "class_widgets_at cfg s' (br_to r) = [?w]"
      using Wt by (simp add: class_widgets_at_def ws)
    have inner': "list_all (\<lambda>n. class_widgets_at cfg s' n = []) [br_from r .. br_to r - 1]"
      using inner by (auto simp: list_all_iff class_widgets_at_def ws)
    have "added cfg ed r s s'"
      unfolding added_def
      by (rule exI [of _ "[?m]"], rule exI [of _ "[?w]"]) (simp add: ws ms li)
    with wf' out tf' smm Wt' inner' line show ?thesis by (simp add: settled_def)
  qed
qed


subsection \<open>The same view of a block\<close>

lemma settled_same_view:
  assumes "same_view cfg ed r s s'" "br_from r \<le> br_to r" "settled cfg ed r s"
  shows "settled cfg ed r s'"
proof -
  from assms(1) have tf: "tagged_found cfg s' (from_pos r) (to_pos ed r)
                          = tagged_found cfg s (from_pos r) (to_pos ed r)"
    and cw: "\<And>n. br_from r \<le> n \<Longrightarrow> n \<le> br_to r \<Longrightarrow>
                  class_widgets_at cfg s' n = class_widgets_at cfg s n"
    by (simp_all add: same_view_def list_all_iff)
  from cw assms(2) have wt: "class_widgets_at cfg s' (br_to r) = class_widgets_at cfg s (br_to r)"
    by simp
  from cw have inner:
    "list_all (\<lambda>n. class_widgets_at cfg s' n = []) [br_from r .. br_to r - 1]
     = list_all (\<lambda>n. class_widgets_at cfg s n = []) [br_from r .. br_to r - 1]"
    by (auto simp: list_all_iff)
  from assms(3) show ?thesis
    unfolding settled_def tf wt inner .
qed

lemma wf_state_mutations [simp]: "wf_state (s\<lparr>st_mutations := l\<rparr>) = wf_state s"
  by (simp add: wf_state_def)

lemma settled_mutations [simp]:
  "settled cfg ed r (s\<lparr>st_mutations := l\<rparr>) = settled cfg ed r s"
  by (simp add: settled_def tagged_found_markers class_widgets_at_def)

section \<open>The ranges of a whole scan\<close>

lemma scan_inv_mono: "scan_inv i st \<Longrightarrow> i \<le> j \<Longrightarrow> scan_inv j st"
  by (fastforce simp: scan_inv_def list_all_iff)

lemma scan_loop_inv_at:
  "scan_inv i st \<Longrightarrow> scan_loop bp ep ls fromLine toLine i st = Inr st' \<Longrightarrow>
   scan_inv (max i toLine) st'"
proof (induction bp ep ls fromLine toLine i st rule: scan_loop.induct)
  case (1 bp ep ls fromLine toLine i st)
  show ?case
  proof (cases "i < toLine")
    case False
    with "1.prems" show ?thesis
      by (auto simp: scan_loop.simps [of _ _ _ _ _ i] max_def)
  next
    case True
    with "1.prems" obtain st1 where
      s1: "scan_step bp ep ls fromLine i st = Inr st1" and
      l1: "scan_loop bp ep ls fromLine toLine (i + 1) st1 = Inr st'"
      by (auto simp: scan_loop.simps [of _ _ _ _ _ i] split: sum.splits)
    from "1.IH" [OF True s1 scan_step_inv [OF "1.prems"(1) s1] l1] True
    show ?thesis by (simp add: max_def)
  qed
qed

lemma backoff_separated:
  "scan_inv j st \<Longrightarrow> meetBeginToken st \<Longrightarrow> j \<le> i \<Longrightarrow>
   backoff_loop ep ls i st = Inr st' \<Longrightarrow> well_separated (blockRangeList st')"
proof (induction ep ls i st rule: backoff_loop.induct)
  case (1 ep ls i st)
  show ?case
  proof (cases "i < lineCount ls")
    case False
    with "1.prems" show ?thesis
      by (auto simp: backoff_loop.simps [of _ _ i] scan_inv_def)
  next
    case True
    obtain b li where t: "regexp_test ep (endLastIndex st) (to_str (getLine ls i)) = (b, li)"
      by (cases "regexp_test ep (endLastIndex st) (to_str (getLine ls i))") auto
    show ?thesis
    proof (cases b)
      case False
      with True t "1.prems"(4) have
        l: "backoff_loop ep ls (i + 1) (st\<lparr>endLastIndex := li\<rparr>) = Inr st'"
        by (simp add: backoff_loop.simps [of _ _ i])
      from "1.prems"(1) have inv: "scan_inv j (st\<lparr>endLastIndex := li\<rparr>)"
        by (simp add: scan_inv_def)
      from "1.prems"(2) have m: "meetBeginToken (st\<lparr>endLastIndex := li\<rparr>)" by simp
      from "1.prems"(3) have "j \<le> i + 1" by simp
      from "1.IH" [OF True refl t [symmetric] _ inv m this l] False show ?thesis by simp
    next
      case b: True
      with True t "1.prems"(4) obtain m li' where
        "st' = st\<lparr>blockRangeList := blockRangeList st @
                     [\<lparr>br_from = prevBeginTokenLineNumber st, br_to = i,
                       br_beginMatch = beginMatch st, br_endMatch = m\<rparr>],
                   endLastIndex := li'\<rparr>"
        by (auto simp: backoff_loop.simps [of _ _ i] split: option.splits prod.splits)
      with "1.prems"(1,2,3) show ?thesis
        by (fastforce simp: scan_inv_def well_separated_def sorted_wrt_append list_all_iff)
    qed
  qed
qed

lemma backoff_keeps_flag:
  "backoff_loop ep ls i st = Inr st' \<Longrightarrow> meetBeginToken st' = meetBeginToken st"
proof (induction ep ls i st rule: backoff_loop.induct)
  case (1 ep ls i st)
  show ?case
  proof (cases "i < lineCount ls")
    case False
    with "1.prems" show ?thesis by (auto simp: backoff_loop.simps [of _ _ i])
  next
    case True
    obtain b li where t: "regexp_test ep (endLastIndex st) (to_str (getLine ls i)) = (b, li)"
      by (cases "regexp_test ep (endLastIndex st) (to_str (getLine ls i))") auto
    show ?thesis
    proof (cases b)
      case False
      with True t "1.prems" have
        l: "backoff_loop ep ls (i + 1) (st\<lparr>endLastIndex := li\<rparr>) = Inr st'"
        by (simp add: backoff_loop.simps [of _ _ i])
      from "1.IH" [OF True refl t [symmetric] _ l] False show ?thesis by simp
    next
      case b: True
      with True t "1.prems" show ?thesis
        by (auto simp: backoff_loop.simps [of _ _ i] split: option.splits prod.splits)
    qed
  qed
qed

text \<open>The ranges of a whole scan are pairwise disjoint and increasing in viewport mode,
  and in full-document mode unless the scan ends inside an open block above the end of the
  viewport.\<close>

lemma process_scan_separated:
  assumes full: "afterSetValue \<longrightarrow> lineCount ls \<le> vt \<or> \<not> meetBeginToken st"
    and scan: "process_scan bp ep ls vf vt afterSetValue bi ei = Inr st"
  shows "well_separated (blockRangeList st)"
proof -
  define fromLine where "fromLine = (if afterSetValue then 0 else vf)"
  define toLine where "toLine = (if afterSetValue then lineCount ls else vt)"
  from scan obtain st0 where
    l: "scan_loop bp ep ls fromLine toLine 0 (scan_init bi ei) = Inr st0"
    and b: "(if meetBeginToken st0 then backoff_loop ep ls vt st0 else Inr st0) = Inr st"
    by (auto simp: process_scan_def Let_def fromLine_def toLine_def split: sum.splits)
  from scan_loop_inv_at [OF scan_inv_init l] have inv: "scan_inv (max 0 toLine) st0" .
  show ?thesis
  proof (cases "meetBeginToken st0")
    case False
    with b inv show ?thesis by (simp add: scan_inv_def)
  next
    case True
    have pos: "0 < toLine"
    proof (rule ccontr)
      assume "\<not> 0 < toLine"
      with l have "st0 = scan_init bi ei" by (simp add: scan_loop.simps [of _ _ _ _ _ 0])
      with True show False by (simp add: scan_init_def)
    qed
    from b True have bl: "backoff_loop ep ls vt st0 = Inr st" by simp
    from backoff_keeps_flag [OF bl] True have flag: "meetBeginToken st" by simp
    show ?thesis
    proof (cases afterSetValue)
      case False
      with pos inv have "scan_inv vt st0" by (simp add: toLine_def max_def)
      from backoff_separated [OF this True order_refl bl] show ?thesis .
    next
      case a: True
      with full flag have "\<not> vt < lineCount ls" by simp
      with bl have "st = st0" by (simp add: backoff_loop.simps [of _ _ vt])
      with inv show ?thesis by (simp add: scan_inv_def)
    qed
  qed
qed


lemma stateless_test_index:
  "stateless p \<Longrightarrow> regexp_test p li s = (b, li') \<Longrightarrow> li' = li"
  by (auto simp: stateless_def regexp_test_def regexp_exec_def split: option.splits prod.splits)

lemma stateless_match_index:
  "stateless p \<Longrightarrow> string_match p li s = (m, li') \<Longrightarrow> li' = li"
  by (auto simp: stateless_def string_match_def regexp_exec_def split: option.splits prod.splits)

lemma stateless_test_snd [simp]: "stateless p \<Longrightarrow> snd (regexp_test p li s) = li"
  using stateless_test_index [of p li s] by (cases "regexp_test p li s") auto

lemma stateless_match_snd [simp]: "stateless p \<Longrightarrow> snd (string_match p li s) = li"
  using stateless_match_index [of p li s] by (cases "string_match p li s") auto

lemma scan_step_index:
  assumes "stateless bp" "stateless ep" "scan_step bp ep ls fromLine i st = Inr st'"
  shows "startLastIndex st' = startLastIndex st \<and> endLastIndex st' = endLastIndex st"
  using assms
  by (auto simp: scan_step_def Let_def prod.case_eq_if
           split: if_splits bool.splits option.splits)

lemma scan_loop_index:
  "stateless bp \<Longrightarrow> stateless ep \<Longrightarrow> scan_loop bp ep ls fromLine toLine i st = Inr st' \<Longrightarrow>
   startLastIndex st' = startLastIndex st \<and> endLastIndex st' = endLastIndex st"
proof (induction bp ep ls fromLine toLine i st rule: scan_loop.induct)
  case (1 bp ep ls fromLine toLine i st)
  show ?case
  proof (cases "i < toLine")
    case False
    with "1.prems" show ?thesis by (auto simp: scan_loop.simps [of _ _ _ _ _ i])
  next
    case True
    with "1.prems" obtain st1 where
      s1: "scan_step bp ep ls fromLine i st = Inr st1" and
      l1: "scan_loop bp ep ls fromLine toLine (i + 1) st1 = Inr st'"
      by (auto simp: scan_loop.simps [of _ _ _ _ _ i] split: sum.splits)
    from "1.IH" [OF True s1 "1.prems"(1,2) l1] scan_step_index [OF "1.prems"(1,2) s1]
    show ?thesis by simp
  qed
qed

lemma backoff_loop_index:
  "stateless ep \<Longrightarrow> backoff_loop ep ls i st = Inr st' \<Longrightarrow>
   startLastIndex st' = startLastIndex st \<and> endLastIndex st' = endLastIndex st"
proof (induction ep ls i st rule: backoff_loop.induct)
  case (1 ep ls i st)
  show ?case
  proof (cases "i < lineCount ls")
    case False
    with "1.prems" show ?thesis by (auto simp: backoff_loop.simps [of _ _ i])
  next
    case True
    obtain b li where t: "regexp_test ep (endLastIndex st) (to_str (getLine ls i)) = (b, li)"
      by (cases "regexp_test ep (endLastIndex st) (to_str (getLine ls i))") auto
    from stateless_test_index [OF "1.prems"(1) t] have li: "li = endLastIndex st" .
    show ?thesis
    proof (cases b)
      case False
      with True t "1.prems"(2) have
        l: "backoff_loop ep ls (i + 1) (st\<lparr>endLastIndex := li\<rparr>) = Inr st'"
        by (simp add: backoff_loop.simps [of _ _ i])
      from "1.IH" [OF True refl t [symmetric] _ "1.prems"(1) l] False li show ?thesis by simp
    next
      case b: True
      with True t "1.prems"(2) li show ?thesis
        by (auto simp: backoff_loop.simps [of _ _ i] split: option.splits prod.splits
                 dest: stateless_match_index [OF "1.prems"(1)])
    qed
  qed
qed

lemma process_scan_index:
  assumes "stateless bp" "stateless ep"
    and "process_scan bp ep ls vf vt afterSetValue bi ei = Inr st"
  shows "startLastIndex st = bi \<and> endLastIndex st = ei"
proof -
  from assms(3) obtain st0 where
    l: "scan_loop bp ep ls (if afterSetValue then 0 else vf)
          (if afterSetValue then lineCount ls else vt) 0 (scan_init bi ei) = Inr st0"
    and b: "(if meetBeginToken st0 then backoff_loop ep ls vt st0 else Inr st0) = Inr st"
    by (auto simp: process_scan_def Let_def split: sum.splits)
  from scan_loop_index [OF assms(1,2) l]
  have "startLastIndex st0 = bi \<and> endLastIndex st0 = ei" by (simp add: scan_init_def)
  with b backoff_loop_index [OF assms(2), of ls vt st0 st] show ?thesis
    by (auto split: if_splits)
qed

section \<open>The loop body works on one block only\<close>

lemma marker_found_self:
  "pos_less f t \<Longrightarrow> tm_from m = f \<Longrightarrow> tm_to m = t \<Longrightarrow> marker_found f t m"
  by (auto simp: marker_found_def span_found_def pos_less_def)

lemma marker_found_onclick [simp]:
  "marker_found f t (m\<lparr>tm_onclick := b\<rparr>) = marker_found f t m"
  by (simp add: marker_found_def span_found_def)

lemma local_refl: "wf_state s \<Longrightarrow> local_step f t s s"
  by (simp add: local_step_def)

lemma local_trans: "local_step f t s s' \<Longrightarrow> local_step f t s' s'' \<Longrightarrow> local_step f t s s''"
  unfolding local_step_def by (intro conjI; (simp; fail)?) blast

lemma local_wf: "local_step f t s s' \<Longrightarrow> wf_state s'"
  by (simp add: local_step_def)

lemma marker_hit_step:
  assumes "marker_hit f t s i" "local_step f t s s'"
  shows "marker_hit f t s' i"
  unfolding marker_hit_def
proof (intro ballI impI)
  fix m assume m: "m \<in> set (st_markers s')" "tm_id m = i"
  show "marker_found f t m"
  proof (rule ccontr)
    assume n: "\<not> marker_found f t m"
    with m(1) have "m \<in> set (filter (\<lambda>m. \<not> marker_found f t m) (st_markers s'))" by simp
    with assms(2) have "m \<in> set (filter (\<lambda>m. \<not> marker_found f t m) (st_markers s))"
      by (simp add: local_step_def)
    with assms(1) m(2) n show False by (simp add: marker_hit_def)
  qed
qed

lemma widget_hit_step:
  assumes "widget_hit f t s i" "local_step f t s s'"
  shows "widget_hit f t s' i"
  unfolding widget_hit_def
proof (intro ballI impI)
  fix w assume w: "w \<in> set (st_widgets s')" "lw_id w = i"
  show "pos_line f \<le> lw_line w \<and> lw_line w \<le> pos_line t"
  proof (rule ccontr)
    assume "\<not> (pos_line f \<le> lw_line w \<and> lw_line w \<le> pos_line t)"
    then have n: "lw_line w < pos_line f \<or> pos_line t < lw_line w" by auto
    with w(1) have
      "w \<in> set (filter (\<lambda>w. lw_line w < pos_line f \<or> pos_line t < lw_line w) (st_widgets s'))"
      by simp
    with assms(2) have
      "w \<in> set (filter (\<lambda>w. lw_line w < pos_line f \<or> pos_line t < lw_line w) (st_widgets s))"
      by (simp add: local_step_def)
    with assms(1) w(2) n show False by (auto simp: widget_hit_def)
  qed
qed

lemma local_clear_marker:
  "wf_state s \<Longrightarrow> marker_hit f t s i \<Longrightarrow> local_step f t s (clear_marker i s)"
  unfolding local_step_def marker_hit_def
  by (auto simp: filter_other_id conj_commute)

lemma local_clear_widget:
  "wf_state s \<Longrightarrow> widget_hit f t s i \<Longrightarrow> local_step f t s (clear_widget i s)"
  unfolding local_step_def widget_hit_def
  by (auto simp: conj_commute intro!: filter_cong)

lemma list_all_node_update:
  "list_all (\<lambda>w. lw_id w < k) (map (\<lambda>w. if c w then w\<lparr>lw_node := n w\<rparr> else w) ws)
   = list_all (\<lambda>w. lw_id w < k) ws"
  by (induction ws) auto

lemma wf_empty_node [simp]: "wf_state (empty_node i s) = wf_state s"
  by (simp add: wf_state_def empty_node_def list_all_node_update)

lemma wf_append_child [simp]: "wf_state (append_child i c s) = wf_state s"
  by (simp add: wf_state_def append_child_def list_all_node_update)

lemma local_empty_node:
  "wf_state s \<Longrightarrow> widget_hit f t s i \<Longrightarrow> local_step f t s (empty_node i s)"
  unfolding local_step_def widget_hit_def
  by (auto simp: empty_node_def simp del: wf_empty_node intro!: filter_widget_update
           dest: wf_empty_node [THEN iffD2])

lemma local_append_child:
  "wf_state s \<Longrightarrow> widget_hit f t s i \<Longrightarrow> local_step f t s (append_child i c s)"
  unfolding local_step_def widget_hit_def
  by (auto simp: append_child_def simp del: wf_append_child intro!: filter_widget_update
           dest: wf_append_child [THEN iffD2])

lemma markText_fields:
  assumes "markText f t el cls s = (i, s')"
  shows "i = st_next_id s" "st_widgets s' = st_widgets s" "st_next_id s' = Suc (st_next_id s)"
    "st_startLastIndex s' = st_startLastIndex s" "st_endLastIndex s' = st_endLastIndex s"
    "st_markers s' =
       (if pos_less f t
        then st_markers s @
               [\<lparr>tm_id = st_next_id s, tm_className = cls, tm_from = f, tm_to = t,
                 tm_replacedWith = Some el, tm_onclick = False\<rparr>]
        else st_markers s)"
  using assms by (auto simp: markText_def Let_def split: if_splits)

lemma addLineWidget_fields:
  assumes "addLineWidget n node cls s = (i, s')"
  shows "i = st_next_id s" "st_markers s' = st_markers s" "st_next_id s' = Suc (st_next_id s)"
    "st_startLastIndex s' = st_startLastIndex s" "st_endLastIndex s' = st_endLastIndex s"
    "st_widgets s' =
       st_widgets s @ [\<lparr>lw_id = st_next_id s, lw_line = n, lw_className = cls, lw_node = node\<rparr>]"
  using assms by (auto simp: addLineWidget_def Let_def)

lemma wf_markText:
  "wf_state s \<Longrightarrow> markText f t el cls s = (i, s') \<Longrightarrow> wf_state s'"
  unfolding markText_def wf_state_def
  by (fastforce simp: Let_def list_all_iff split: if_splits)

lemma wf_addLineWidget:
  "wf_state s \<Longrightarrow> addLineWidget n node cls s = (i, s') \<Longrightarrow> wf_state s'"
  unfolding addLineWidget_def wf_state_def
  by (fastforce simp: Let_def list_all_iff)

lemma wf_setStyleAndLogical [simp]:
  "wf_state (setStyleAndLogical cfg tm lw s) = wf_state s"
proof -
  have "list_all (\<lambda>m. tm_id m < k)
          (map (\<lambda>m. if c m then m\<lparr>tm_onclick := b\<rparr> else m) ms)
        = list_all (\<lambda>m. tm_id m < k) ms" for k c b and ms :: "'a textMarker list"
    by (induction ms) auto
  then show ?thesis
    by (simp add: wf_state_def setStyleAndLogical_def list_all_node_update)
qed

lemma fresh_marker_id: "wf_state s \<Longrightarrow> m \<in> set (st_markers s) \<Longrightarrow> tm_id m \<noteq> st_next_id s"
  by (auto simp: wf_state_def list_all_iff)

lemma fresh_widget_id: "wf_state s \<Longrightarrow> w \<in> set (st_widgets s) \<Longrightarrow> lw_id w \<noteq> st_next_id s"
  by (auto simp: wf_state_def list_all_iff)

lemma local_markText:
  assumes wf: "wf_state s" and mt: "markText f t el cls s = (i, s')"
  shows "local_step f t s s' \<and>
         (\<forall>m\<in>set (st_markers s'). tm_id m = i \<longrightarrow>
            tm_from m = f \<and> tm_to m = t \<and> marker_found f t m) \<and>
         st_widgets s' = st_widgets s"
proof -
  note fl = markText_fields [OF mt]
  from wf_markText [OF wf mt] have wf': "wf_state s'" .
  have "local_step f t s s'"
    unfolding local_step_def using wf' by (auto simp: fl marker_found_self)
  moreover have "\<forall>m\<in>set (st_markers s'). tm_id m = i \<longrightarrow>
            tm_from m = f \<and> tm_to m = t \<and> marker_found f t m"
    using fresh_marker_id [OF wf] by (auto simp: fl marker_found_self)
  ultimately show ?thesis by (simp add: fl)
qed

lemma local_addLineWidget:
  assumes wf: "wf_state s" and le: "pos_line f \<le> pos_line t"
    and al: "addLineWidget (pos_line t) node cls s = (i, s')"
  shows "local_step f t s s' \<and> widget_hit f t s' i \<and> st_markers s' = st_markers s"
proof -
  note fl = addLineWidget_fields [OF al]
  from wf_addLineWidget [OF wf al] have wf': "wf_state s'" .
  have "local_step f t s s'"
    unfolding local_step_def using wf' le by (auto simp: fl)
  moreover have "widget_hit f t s' i"
    unfolding widget_hit_def using fresh_widget_id [OF wf] le by (auto simp: fl)
  ultimately show ?thesis by (simp add: fl)
qed

lemma local_setStyleAndLogical:
  assumes wf: "wf_state s"
    and tm: "\<forall>m\<in>set (st_markers s). tm_id m = tm \<longrightarrow>
               tm_from m = f \<and> tm_to m = t \<and> marker_found f t m"
    and lw: "widget_hit f t s lw"
  shows "local_step f t s (setStyleAndLogical cfg tm lw s)"
proof -
  have w: "filter (\<lambda>w. lw_line w < pos_line f \<or> pos_line t < lw_line w)
             (map (\<lambda>w. if lw_id w = lw then w\<lparr>lw_node := lw_node w @ [EditButton]\<rparr> else w)
                (st_widgets s))
           = filter (\<lambda>w. lw_line w < pos_line f \<or> pos_line t < lw_line w) (st_widgets s)"
    using lw by (intro filter_widget_update) (auto simp: widget_hit_def)
  have m: "filter (\<lambda>m. \<not> marker_found f t m)
             (map (\<lambda>m. if tm_id m = tm then m\<lparr>tm_onclick := clearOnClick cfg\<rparr> else m)
                (st_markers s))
           = filter (\<lambda>m. \<not> marker_found f t m) (st_markers s)"
    using tm by (intro filter_marker_update) auto
  have b: "\<forall>m\<in>set (map (\<lambda>m. if tm_id m = tm then m\<lparr>tm_onclick := clearOnClick cfg\<rparr> else m)
                (st_markers s)). m \<in> set (st_markers s) \<or> (tm_from m = f \<and> tm_to m = t)"
    using tm by auto
  have wf': "wf_state (setStyleAndLogical cfg tm lw s)" using wf by simp
  have fl: "st_markers (setStyleAndLogical cfg tm lw s)
            = map (\<lambda>m. if tm_id m = tm then m\<lparr>tm_onclick := clearOnClick cfg\<rparr> else m)
                (st_markers s)"
    "st_widgets (setStyleAndLogical cfg tm lw s)
     = map (\<lambda>w. if lw_id w = lw then w\<lparr>lw_node := lw_node w @ [EditButton]\<rparr> else w)
         (st_widgets s)"
    "st_next_id (setStyleAndLogical cfg tm lw s) = st_next_id s"
    "st_startLastIndex (setStyleAndLogical cfg tm lw s) = st_startLastIndex s"
    "st_endLastIndex (setStyleAndLogical cfg tm lw s) = st_endLastIndex s"
    by (simp_all add: setStyleAndLogical_def)
  show ?thesis
    unfolding local_step_def fl w m using wf' b by blast
qed


lemma widget_hit_find:
  assumes "wf_state s" "findLineWidgetAtLine s n cls = Some w" "pos_line f \<le> n" "n \<le> pos_line t"
  shows "widget_hit f t s (lw_id w)"
proof -
  from find_widget_member [OF assms(2)]
  have mem: "w \<in> set (st_widgets s)" "lw_line w = n" by simp_all
  from assms(1) have "inj_on lw_id (set (st_widgets s))"
    by (simp add: wf_state_def distinct_map)
  with mem assms(3,4) show ?thesis by (auto simp: widget_hit_def dest: inj_onD)
qed

lemma marker_hit_member:
  assumes "wf_state s" "m \<in> set (st_markers s)" "marker_found f t m"
  shows "marker_hit f t s (tm_id m)"
proof -
  from assms(1) have "inj_on tm_id (set (st_markers s))"
    by (simp add: wf_state_def distinct_map)
  with assms(2,3) show ?thesis by (auto simp: marker_hit_def dest: inj_onD)
qed

lemma check_mark_local:
  assumes acc: "acc_local f t (em, ew, s)"
    and le: "pos_line f \<le> pos_line t"
    and m: "marker_hit f t s (tm_id marker)"
    and res: "check_mark cfg f t marker (em, ew, s) = (em', ew', s')"
  shows "local_step f t s s' \<and> acc_local f t (em', ew', s')"
proof (cases "tm_className marker = MARKER_CLASS_NAME cfg")
  case False
  with acc res show ?thesis by (auto simp: check_mark_def acc_local_def local_refl)
next
  case True
  from acc have wf: "wf_state s" by (simp add: acc_local_def)
  have c1: "local_step f t s (clear_marker (tm_id marker) s)"
    by (rule local_clear_marker [OF wf m])
  show ?thesis
  proof (cases "findLineWidgetAtLine s (pos_line t) (lineWidgetClassName cfg)")
    case None
    with True acc res c1 m show ?thesis
      by (auto simp: check_mark_def Let_def acc_local_def local_refl local_wf
               dest: marker_hit_step split: if_splits option.splits)
  next
    case (Some w)
    from widget_hit_find [OF wf Some le order_refl] have wo: "widget_hit f t s (lw_id w)" .
    have c2: "local_step f t (clear_marker (tm_id marker) s)
                (clear_widget (lw_id w) (clear_marker (tm_id marker) s))"
      by (rule local_clear_widget [OF local_wf [OF c1] widget_hit_step [OF wo c1]])
    from local_trans [OF c1 c2] have c12:
      "local_step f t s (clear_widget (lw_id w) (clear_marker (tm_id marker) s))" .
    from True Some res consider
      (a) "em' = Some (tm_id marker)" "ew' = Some (lw_id w)"
          "s' = clear_widget (lw_id w) (clear_marker (tm_id marker) s)"
      | (b) "em' = Some (tm_id marker)" "ew' = Some (lw_id w)" "s' = s"
      by (auto simp: check_mark_def Let_def split: if_splits)
    then show ?thesis
    proof cases
      case a
      with c12 m wo show ?thesis
        by (auto simp: acc_local_def local_wf dest: marker_hit_step widget_hit_step)
    next
      case b
      with wf m wo show ?thesis by (simp add: acc_local_def local_refl)
    qed
  qed
qed

lemma check_marks_local:
  "acc_local f t (em, ew, s) \<Longrightarrow> pos_line f \<le> pos_line t \<Longrightarrow>
   \<forall>m\<in>set ms. marker_hit f t s (tm_id m) \<Longrightarrow>
   check_marks cfg f t ms (em, ew, s) = (em', ew', s') \<Longrightarrow>
   local_step f t s s' \<and> acc_local f t (em', ew', s')"
proof (induction ms arbitrary: em ew s)
  case Nil
  then show ?case by (auto simp: acc_local_def local_refl)
next
  case (Cons m ms)
  obtain em1 ew1 s1 where r1: "check_mark cfg f t m (em, ew, s) = (em1, ew1, s1)"
    by (cases "check_mark cfg f t m (em, ew, s)") auto
  from Cons.prems(3) have "marker_hit f t s (tm_id m)" by simp
  from check_mark_local [OF Cons.prems(1,2) this r1]
  have ok1: "local_step f t s s1" and acc1: "acc_local f t (em1, ew1, s1)" by simp_all
  from Cons.prems(3) ok1 have "\<forall>m\<in>set ms. marker_hit f t s1 (tm_id m)"
    by (auto dest: marker_hit_step)
  from Cons.IH [OF acc1 Cons.prems(2) this] Cons.prems(4) r1
  have "local_step f t s1 s' \<and> acc_local f t (em', ew', s')" by simp
  with ok1 show ?case by (auto intro: local_trans)
qed

lemma sweep_widgets_local:
  "wf_state s \<Longrightarrow> \<forall>n\<in>set ns. pos_line f \<le> n \<and> n \<le> pos_line t \<Longrightarrow>
   local_step f t s (sweep_widgets cfg ns s)"
proof (induction ns arbitrary: s)
  case Nil
  then show ?case by (simp add: local_refl)
next
  case (Cons n ns)
  show ?case
  proof (cases "findLineWidgetAtLine s n (lineWidgetClassName cfg)")
    case None
    with Cons show ?thesis by simp
  next
    case (Some w)
    from Cons.prems(2) have n: "pos_line f \<le> n" "n \<le> pos_line t" by simp_all
    from local_clear_widget [OF Cons.prems(1) widget_hit_find [OF Cons.prems(1) Some n]]
    have c: "local_step f t s (clear_widget (lw_id w) s)" .
    from Cons.IH [OF local_wf [OF c]] Cons.prems(2) c Some show ?thesis
      by (auto intro: local_trans)
  qed
qed

lemma selected_outside_local:
  assumes "acc_local f t (em, ew, s)"
  shows "local_step f t s (outcome_state (selected_outside em ew s))"
proof -
  from assms have wf: "wf_state s" by (simp add: acc_local_def)
  show ?thesis
  proof (cases em)
    case None
    with wf show ?thesis by (simp add: selected_outside_def local_refl)
  next
    case (Some m)
    with assms have "marker_hit f t s m" by (simp add: acc_local_def)
    from local_clear_marker [OF wf this] have c1: "local_step f t s (clear_marker m s)" .
    show ?thesis
    proof (cases ew)
      case None
      with Some c1 show ?thesis by (simp add: selected_outside_def)
    next
      case (Some w)
      with assms have "widget_hit f t s w" by (simp add: acc_local_def)
      from local_clear_widget [OF local_wf [OF c1] widget_hit_step [OF this c1]]
      have "local_step f t (clear_marker m s) (clear_widget w (clear_marker m s))" .
      with c1 Some \<open>em = Some m\<close> show ?thesis
        by (auto simp: selected_outside_def intro: local_trans)
    qed
  qed
qed

lemma cursor_outside_local:
  assumes wf: "wf_state s" and le: "pos_line f \<le> pos_line t"
  shows "local_step f t s (outcome_state (cursor_outside cfg r f t content em s))"
proof (cases em)
  case (Some m)
  with wf show ?thesis by (simp add: cursor_outside_def local_refl)
next
  case None
  define s3 where "s3 = (case findLineWidgetAtLine s (pos_line t) (lineWidgetClassName cfg) of
                           None \<Rightarrow> s | Some w \<Rightarrow> clear_widget (lw_id w) s)"
  have c3: "local_step f t s s3"
    unfolding s3_def using wf le
    by (auto simp: local_refl split: option.splits
             intro!: local_clear_widget widget_hit_find)
  show ?thesis
  proof (cases "spanRenderer cfg")
    case None
    with \<open>em = None\<close> c3 show ?thesis by (simp add: cursor_outside_def s3_def)
  next
    case (Some markerEl)
    obtain tm s4 where mt: "markText f t markerEl (MARKER_CLASS_NAME cfg) s3 = (tm, s4)"
      by (cases "markText f t markerEl (MARKER_CLASS_NAME cfg) s3") auto
    from local_markText [OF local_wf [OF c3] mt]
    have c4: "local_step f t s3 s4"
      and tmo: "\<forall>m\<in>set (st_markers s4). tm_id m = tm \<longrightarrow>
                  tm_from m = f \<and> tm_to m = t \<and> marker_found f t m" by simp_all
    from c3 c4 have c34: "local_step f t s s4" by (rule local_trans)
    show ?thesis
    proof (cases "renderer cfg (br_beginMatch r) (br_endMatch r) content (pos_line f) (pos_line t)")
      case None
      with \<open>em = None\<close> Some mt c34 show ?thesis
        by (simp add: cursor_outside_def s3_def [symmetric])
    next
      case (Some element)
      obtain lw s5 where al:
        "addLineWidget (pos_line t) [Rendered element] (lineWidgetClassName cfg) s4 = (lw, s5)"
        by (cases "addLineWidget (pos_line t) [Rendered element] (lineWidgetClassName cfg) s4")
           auto
      from local_addLineWidget [OF local_wf [OF c4] le al]
      have c5: "local_step f t s4 s5" and lwo: "widget_hit f t s5 lw"
        and ms: "st_markers s5 = st_markers s4" by simp_all
      from tmo ms have tmo5: "\<forall>m\<in>set (st_markers s5). tm_id m = tm \<longrightarrow>
                  tm_from m = f \<and> tm_to m = t \<and> marker_found f t m" by simp
      from local_setStyleAndLogical [OF local_wf [OF c5] tmo5 lwo]
      have "local_step f t s5 (setStyleAndLogical cfg tm lw s5)" .
      with c34 c5 have "local_step f t s (setStyleAndLogical cfg tm lw s5)"
        by (blast intro: local_trans)
      with \<open>em = None\<close> \<open>spanRenderer cfg = Some markerEl\<close> Some mt al show ?thesis
        by (simp add: cursor_outside_def s3_def [symmetric])
    qed
  qed
qed

lemma cursor_inside_local:
  assumes acc: "acc_local f t (em, ew, s)" and le: "pos_line f \<le> pos_line t"
  shows "local_step f t s (outcome_state (cursor_inside cfg r f t content em s))"
proof -
  from acc have wf: "wf_state s" by (simp add: acc_local_def)
  define s3 where "s3 = (case em of None \<Rightarrow> s | Some m \<Rightarrow> clear_marker m s)"
  have c3: "local_step f t s s3"
    unfolding s3_def using acc
    by (auto simp: acc_local_def local_refl split: option.splits intro: local_clear_marker)
  note wf3 = local_wf [OF c3]
  show ?thesis
  proof (cases "findLineWidgetAtLine s3 (pos_line t) (lineWidgetClassName cfg)")
    case None
    show ?thesis
    proof (cases "renderWhenEditing cfg")
      case False
      with None c3 show ?thesis by (simp add: cursor_inside_def s3_def [symmetric])
    next
      case True
      show ?thesis
      proof (cases "renderer cfg (br_beginMatch r) (br_endMatch r) content (pos_line f) (pos_line t)")
        case None
        with \<open>findLineWidgetAtLine s3 (pos_line t) (lineWidgetClassName cfg) = None\<close> True c3
        show ?thesis by (simp add: cursor_inside_def s3_def [symmetric])
      next
        case (Some element)
        from local_addLineWidget [OF wf3 le, of "[Rendered element]" "lineWidgetClassName cfg"]
        have "local_step f t s3 (snd (addLineWidget (pos_line t) [Rendered element]
                                     (lineWidgetClassName cfg) s3))"
          by (cases "addLineWidget (pos_line t) [Rendered element] (lineWidgetClassName cfg) s3")
             auto
        with c3 Some None True show ?thesis
          by (auto simp: cursor_inside_def s3_def [symmetric] intro: local_trans)
      qed
    qed
  next
    case (Some w)
    from widget_hit_find [OF wf3 Some le order_refl] have wo: "widget_hit f t s3 (lw_id w)" .
    show ?thesis
    proof (cases "renderWhenEditing cfg")
      case False
      from local_clear_widget [OF wf3 wo] c3 False Some show ?thesis
        by (auto simp: cursor_inside_def s3_def [symmetric] intro: local_trans)
    next
      case True
      from local_empty_node [OF wf3 wo] have c4: "local_step f t s3 (empty_node (lw_id w) s3)" .
      from c3 c4 have c34: "local_step f t s (empty_node (lw_id w) s3)" by (rule local_trans)
      show ?thesis
      proof (cases "renderer cfg (br_beginMatch r) (br_endMatch r) content (pos_line f) (pos_line t)")
        case None
        with Some True c34 show ?thesis by (simp add: cursor_inside_def s3_def [symmetric])
      next
        case (Some element)
        from local_append_child [OF local_wf [OF c4] widget_hit_step [OF wo c4]]
        have "local_step f t (empty_node (lw_id w) s3)
                (append_child (lw_id w) (Rendered element) (empty_node (lw_id w) s3))" .
        with c34 Some True
          \<open>findLineWidgetAtLine s3 (pos_line t) (lineWidgetClassName cfg) = Some w\<close>
        show ?thesis
          by (auto simp: cursor_inside_def s3_def [symmetric] intro: local_trans)
      qed
    qed
  qed
qed

lemma acc_local_step:
  "acc_local f t (em, ew, s) \<Longrightarrow> local_step f t s s' \<Longrightarrow> acc_local f t (em, ew, s')"
  by (auto simp: acc_local_def local_wf split: option.splits
           dest: marker_hit_step widget_hit_step)

lemma mark_range_local:
  assumes wf: "wf_state s" and le: "br_from r \<le> br_to r"
  shows "local_step (from_pos r) (to_pos ed r) s (outcome_state (mark_range cfg ed r s))"
proof (cases "getLine (ed_lines ed) (br_to r)")
  case None
  with wf show ?thesis by (simp add: mark_range_def local_refl)
next
  case (Some toText)
  let ?f = "from_pos r" and ?t = "to_pos ed r"
  from le have le': "pos_line ?f \<le> pos_line ?t" by simp
  obtain em ew s1 where cm:
    "check_marks cfg ?f ?t (findMarks s ?f ?t) (None, None, s) = (em, ew, s1)"
    by (cases "check_marks cfg ?f ?t (findMarks s ?f ?t) (None, None, s)") auto
  have init: "acc_local ?f ?t (None, None, s)" using wf by (simp add: acc_local_def)
  have "\<forall>m\<in>set (findMarks s ?f ?t). marker_hit ?f ?t s (tm_id m)"
    using wf by (auto simp: findMarks_def intro: marker_hit_member)
  from check_marks_local [OF init le' this cm]
  have c1: "local_step ?f ?t s s1" and a1: "acc_local ?f ?t (em, ew, s1)" by simp_all
  define s2 where "s2 = sweep_widgets cfg [br_from r .. br_to r - 1] s1"
  have c2: "local_step ?f ?t s1 s2"
    unfolding s2_def by (rule sweep_widgets_local [OF local_wf [OF c1]]) auto
  from acc_local_step [OF a1 c2] have a2: "acc_local ?f ?t (em, ew, s2)" .
  from c1 c2 have c12: "local_step ?f ?t s s2" by (rule local_trans)
  have "local_step ?f ?t s2 (outcome_state (mark_range cfg ed r s))"
    using Some cm selected_outside_local [OF a2]
      cursor_outside_local [OF local_wf [OF c2] le', of cfg r _ em]
      cursor_inside_local [OF a2 le', of cfg r]
      positions [OF Some]
    by (simp add: mark_range_def Let_def s2_def [symmetric])
  with c12 show ?thesis by (rule local_trans)
qed


lemma tagged_found_distinct: "wf_state s \<Longrightarrow> distinct (tagged_found cfg s f t)"
  by (simp add: tagged_found_markers wf_state_def distinct_map)

lemma class_widgets_outside:
  assumes "n < a \<or> b < n"
  shows "class_widgets_at cfg s n
         = filter (\<lambda>w. lw_line w = n \<and> lw_className w = lineWidgetClassName cfg)
             (filter (\<lambda>w. lw_line w < a \<or> b < lw_line w) (st_widgets s))"
  using assms by (auto simp: class_widgets_at_def intro: filter_cong)

lemma local_undisturbed:
  assumes ls: "local_step (from_pos r0) (to_pos ed r0) s s'" and ap: "apart r0 r"
    and le: "br_from r \<le> br_to r"
  shows "undisturbed cfg ed r s s'"
proof -
  let ?g = "from_pos r0" and ?u = "to_pos ed r0"
  let ?f = "from_pos r" and ?t = "to_pos ed r"
  from ls have wf': "wf_state s'" and nx: "st_next_id s \<le> st_next_id s'"
    and li: "st_startLastIndex s' = st_startLastIndex s" "st_endLastIndex s' = st_endLastIndex s"
    and ws: "filter (\<lambda>w. lw_line w < br_from r0 \<or> br_to r0 < lw_line w) (st_widgets s') =
             filter (\<lambda>w. lw_line w < br_from r0 \<or> br_to r0 < lw_line w) (st_widgets s)"
    and ms: "filter (\<lambda>m. \<not> marker_found ?g ?u m) (st_markers s') =
             filter (\<lambda>m. \<not> marker_found ?g ?u m) (st_markers s)"
    and new: "\<forall>m\<in>set (st_markers s'). m \<in> set (st_markers s) \<or> (tm_from m = ?g \<and> tm_to m = ?u)"
    by (simp_all add: local_step_def)
  have nf: "\<not> marker_found ?f ?t x" if "tm_from x = ?g" "tm_to x = ?u" for x
    using that ap by (auto simp: marker_found_def span_found_def apart_def)
  have nf0: "\<not> marker_found ?g ?u x" if "span_matches r x" for x
    using that ap by (auto simp: marker_found_def span_found_def apart_def span_matches_def)
  have nsm: "\<not> span_matches r x" if "tm_from x = ?g" "tm_to x = ?u" for x
    using that ap le by (auto simp: apart_def span_matches_def)
  have a: "set (tagged_found cfg s' ?f ?t) \<subseteq> set (tagged_found cfg s ?f ?t)"
    using new nf by (auto simp: tagged_found_markers)
  have b: "\<forall>m\<in>set (tagged_found cfg s ?f ?t). span_matches r m \<longrightarrow>
             m \<in> set (tagged_found cfg s' ?f ?t)"
  proof (intro ballI impI)
    fix m assume m: "m \<in> set (tagged_found cfg s ?f ?t)" "span_matches r m"
    from m(2) have "\<not> marker_found ?g ?u m" by (rule nf0)
    with m(1) have "m \<in> set (filter (\<lambda>m. \<not> marker_found ?g ?u m) (st_markers s))"
      by (simp add: tagged_found_markers)
    with ms have "m \<in> set (filter (\<lambda>m. \<not> marker_found ?g ?u m) (st_markers s'))"
      by simp
    then have "m \<in> set (st_markers s')" by simp
    with m(1) show "m \<in> set (tagged_found cfg s' ?f ?t)"
      by (simp add: tagged_found_markers)
  qed
  have c: "\<forall>n. br_from r \<le> n \<and> n \<le> br_to r \<longrightarrow>
             class_widgets_at cfg s' n = class_widgets_at cfg s n"
  proof (intro allI impI)
    fix n assume "br_from r \<le> n \<and> n \<le> br_to r"
    with ap have out: "n < br_from r0 \<or> br_to r0 < n" by (auto simp: apart_def)
    show "class_widgets_at cfg s' n = class_widgets_at cfg s n"
      by (simp only: class_widgets_outside [OF out] ws)
  qed
  have d: "\<forall>m\<in>set (st_markers s'). span_matches r m \<longrightarrow> m \<in> set (st_markers s)"
    using new nsm by blast
  from wf' nx li a b c d show ?thesis unfolding undisturbed_def by blast
qed

lemma undisturbed_refl: "wf_state s \<Longrightarrow> undisturbed cfg ed r s s"
  by (simp add: undisturbed_def)

lemma undisturbed_trans:
  "undisturbed cfg ed r s s' \<Longrightarrow> undisturbed cfg ed r s' s'' \<Longrightarrow> undisturbed cfg ed r s s''"
  unfolding undisturbed_def by (intro conjI; (simp; fail)?) blast+

lemma mark_range_undisturbed:
  assumes "wf_state s" "br_from r0 \<le> br_to r0" "apart r0 r" "br_from r \<le> br_to r"
    "mark_range cfg ed r0 s = Done s'"
  shows "undisturbed cfg ed r s s'"
  using mark_range_local [OF assms(1,2), of ed cfg] assms(5)
    local_undisturbed [OF _ assms(3,4)] by simp

lemma markRanges_undisturbed:
  "wf_state s \<Longrightarrow> \<forall>r0\<in>set rs. apart r0 r \<and> br_from r0 \<le> br_to r0 \<Longrightarrow> br_from r \<le> br_to r \<Longrightarrow>
   markRanges cfg ed rs s = Done s' \<Longrightarrow> undisturbed cfg ed r s s'"
proof (induction rs arbitrary: s)
  case Nil
  then show ?case by (simp add: undisturbed_refl)
next
  case (Cons r0 rs)
  from Cons.prems(4) obtain s1 where
    one: "mark_range cfg ed r0 s = Done s1" and rest: "markRanges cfg ed rs s1 = Done s'"
    by (auto split: outcome.splits)
  from Cons.prems(2) have le0: "br_from r0 \<le> br_to r0" and ap: "apart r0 r" by simp_all
  from mark_range_undisturbed [OF Cons.prems(1) le0 ap Cons.prems(3) one]
  have u1: "undisturbed cfg ed r s s1" .
  then have "wf_state s1" by (simp add: undisturbed_def)
  from Cons.IH [OF this _ Cons.prems(3) rest] Cons.prems(2)
  have "undisturbed cfg ed r s1 s'" by simp
  with u1 show ?case by (rule undisturbed_trans)
qed

lemma markRanges_split:
  "markRanges cfg ed (pre @ rs) s = Done s' \<Longrightarrow>
   \<exists>s1. markRanges cfg ed pre s = Done s1 \<and> markRanges cfg ed rs s1 = Done s'"
  by (induction pre arbitrary: s) (auto split: outcome.splits)

lemma undisturbed_length:
  assumes "undisturbed cfg ed r s s'"
  shows "length (tagged_found cfg s' (from_pos r) (to_pos ed r))
         \<le> length (tagged_found cfg s (from_pos r) (to_pos ed r))"
proof -
  from assms have wf': "wf_state s'"
    and sub: "set (tagged_found cfg s' (from_pos r) (to_pos ed r))
              \<subseteq> set (tagged_found cfg s (from_pos r) (to_pos ed r))"
    by (simp_all add: undisturbed_def)
  have "length (tagged_found cfg s' (from_pos r) (to_pos ed r))
        = card (set (tagged_found cfg s' (from_pos r) (to_pos ed r)))"
    by (simp add: distinct_card tagged_found_distinct [OF wf'])
  also have "\<dots> \<le> card (set (tagged_found cfg s (from_pos r) (to_pos ed r)))"
    by (rule card_mono [OF _ sub]) simp
  also have "\<dots> \<le> length (tagged_found cfg s (from_pos r) (to_pos ed r))"
    by (rule card_length)
  finally show ?thesis .
qed

lemma well_separated_apart:
  assumes "well_separated (pre @ r # post)"
  shows "\<forall>r0\<in>set pre. apart r0 r \<and> br_from r0 \<le> br_to r0"
    "\<forall>r0\<in>set post. apart r0 r \<and> br_from r0 \<le> br_to r0"
    "br_from r < br_to r"
  using assms
  by (auto simp: well_separated_def sorted_wrt_append apart_def list_all_iff
           intro: less_imp_le)

section \<open>The cursor inside a block\<close>

lemma lastIndex_views [simp]:
  "tagged_found cfg (s\<lparr>st_startLastIndex := a, st_endLastIndex := b\<rparr>) f t = tagged_found cfg s f t"
  "class_widgets_at cfg (s\<lparr>st_startLastIndex := a, st_endLastIndex := b\<rparr>) n
   = class_widgets_at cfg s n"
  "wf_state (s\<lparr>st_startLastIndex := a, st_endLastIndex := b\<rparr>) = wf_state s"
  by (simp_all add: tagged_found_markers class_widgets_at_def wf_state_def)

lemma process_ranges:
  assumes "process_scan (blockStartTokenRegexp cfg) (blockEndTokenRegex cfg) (ed_lines ed)
             (ed_viewport_from ed) (ed_viewport_to ed) afterSetValue
             (st_startLastIndex s) (st_endLastIndex s) = Inr st"
  shows "process cfg ed afterSetValue s
         = markRanges cfg ed (blockRangeList st)
             (s\<lparr>st_startLastIndex := startLastIndex st, st_endLastIndex := endLastIndex st\<rparr>)"
  using assms by (cases "blockRangeList st") (simp_all add: process_def)

lemma sample_collapsed_pass:
  "process (recording_config (literal ''<<<BEGIN'' False) (literal ''END>>>'' False) rwe)
     (editor_of sample_doc 0 2 2) True collapsed_state
   = Done (if rwe then
       \<lparr>st_markers = [],
        st_widgets =
          [\<lparr>lw_id = 1, lw_line = 4, lw_className = ''mk-line-widget'',
            lw_node = [Rendered (Some (Some [''<<<BEGIN''], Some [''END>>>''],
                                       ''a'' @ [CHR 0x0A] @ ''b'', 1, 4))]\<rparr>],
        st_next_id = 2,
        st_mutations = [MarkerCleared 0, NodeEmptied 1, NodeAppended 1],
        st_startLastIndex = 0, st_endLastIndex = 0\<rparr>
     else
       \<lparr>st_markers = [], st_widgets = [], st_next_id = 2,
        st_mutations = [MarkerCleared 0, WidgetCleared 1],
        st_startLastIndex = 0, st_endLastIndex = 0\<rparr>)"
proof -
  have scan: "process_scan (literal ''<<<BEGIN'' False) (literal ''END>>>'' False) sample_doc
                0 2 True 0 0
   = Inr \<lparr>meetBeginToken = False, prevBeginTokenLineNumber = - 1,
          beginMatch = Some [''<<<BEGIN''],
          blockRangeList =
            [\<lparr>br_from = 1, br_to = 4, br_beginMatch = Some [''<<<BEGIN''],
              br_endMatch = Some [''END>>>'']\<rparr>],
          startLastIndex = 0, endLastIndex = 0\<rparr>"
    by (rule sample_scan)
  show ?thesis
    by (simp add: process_def scan sample_simps collapsed_state_def)
       (simp add: mark_simps sample_doc_def)
qed

text \<open>
  Claim C6 says that for every discovered range with the cursor inside, any existing
  inline marker is cleared, and that after the pass a block widget is on \<open>toLine\<close> if and
  only if \<open>renderWhenEditing\<close> is set. First statement: the loop body keeps one marker
  in \<open>existingMarker\<close>; when the store holds two markers of the engine on the block 1..4
  of the sample document and the cursor is on line 2, the pass clears the marker found
  last and the other one stays on the block. Second statement: in full-document mode with
  the viewport \<open>[0, 2)\<close>, on a document that ends with an open begin token, the scan past
  the window adds the range \<open>{5, 3}\<close> (see the section on that scan); the cursor on line 2
  is inside the discovered range \<open>{1, 3}\<close> and \<open>renderWhenEditing\<close> is not set, and the
  pass ends with a widget of the engine on line 3, created for the range \<open>{5, 3}\<close>.
\<close>

theorem cursor_inside_marker_stays:
  "process (recording_config (literal ''<<<BEGIN'' False) (literal ''END>>>'' False) True)
     (editor_of sample_doc 0 6 2) False doubled_state
   = Done \<lparr>st_markers =
             [\<lparr>tm_id = 0, tm_className = ''mk'', tm_from = \<lparr>pos_line = 1, pos_ch = 0\<rparr>,
               tm_to = \<lparr>pos_line = 4, pos_ch = 6\<rparr>, tm_replacedWith = Some None,
               tm_onclick = False\<rparr>],
           st_widgets =
             [\<lparr>lw_id = 1, lw_line = 4, lw_className = ''mk-line-widget'',
               lw_node = [Rendered (Some (Some [''<<<BEGIN''], Some [''END>>>''],
                                          ''a'' @ [CHR 0x0A] @ ''b'', 1, 4))]\<rparr>],
           st_next_id = 3,
           st_mutations = [MarkerCleared 2, NodeEmptied 1, NodeAppended 1],
           st_startLastIndex = 0, st_endLastIndex = 0\<rparr>
   \<and> process (recording_config (literal ''<<<BEGIN'' False) (literal ''END>>>'' False) False)
       (editor_of open_tail_doc 0 2 2) True (no_decorations 0 0)
     = Done \<lparr>st_markers = [],
             st_widgets =
               [\<lparr>lw_id = 1, lw_line = 3, lw_className = ''mk-line-widget'',
                 lw_node = [Rendered (Some (Some [''<<<BEGIN''], Some [''END>>>''], [], 5, 3)),
                            EditButton]\<rparr>],
             st_next_id = 2, st_mutations = [WidgetAdded 1],
             st_startLastIndex = 0, st_endLastIndex = 0\<rparr>"
proof -
  have scan: "process_scan (literal ''<<<BEGIN'' False) (literal ''END>>>'' False) sample_doc
                0 6 False 0 0
   = Inr \<lparr>meetBeginToken = False, prevBeginTokenLineNumber = - 1,
          beginMatch = Some [''<<<BEGIN''],
          blockRangeList =
            [\<lparr>br_from = 1, br_to = 4, br_beginMatch = Some [''<<<BEGIN''],
              br_endMatch = Some [''END>>>'']\<rparr>],
          startLastIndex = 0, endLastIndex = 0\<rparr>"
    by (simp add: scan_simps sample_doc_def)
  have a: "process (recording_config (literal ''<<<BEGIN'' False) (literal ''END>>>'' False) True)
     (editor_of sample_doc 0 6 2) False doubled_state
   = Done \<lparr>st_markers =
             [\<lparr>tm_id = 0, tm_className = ''mk'', tm_from = \<lparr>pos_line = 1, pos_ch = 0\<rparr>,
               tm_to = \<lparr>pos_line = 4, pos_ch = 6\<rparr>, tm_replacedWith = Some None,
               tm_onclick = False\<rparr>],
           st_widgets =
             [\<lparr>lw_id = 1, lw_line = 4, lw_className = ''mk-line-widget'',
               lw_node = [Rendered (Some (Some [''<<<BEGIN''], Some [''END>>>''],
                                          ''a'' @ [CHR 0x0A] @ ''b'', 1, 4))]\<rparr>],
           st_next_id = 3,
           st_mutations = [MarkerCleared 2, NodeEmptied 1, NodeAppended 1],
           st_startLastIndex = 0, st_endLastIndex = 0\<rparr>"
    by (simp add: process_def scan sample_simps doubled_state_def)
       (simp add: mark_simps sample_doc_def)
  have scan2: "process_scan (literal ''<<<BEGIN'' False) (literal ''END>>>'' False) open_tail_doc
                0 2 True 0 0
   = Inr \<lparr>meetBeginToken = True, prevBeginTokenLineNumber = 5,
          beginMatch = Some [''<<<BEGIN''],
          blockRangeList =
            [\<lparr>br_from = 1, br_to = 3, br_beginMatch = Some [''<<<BEGIN''],
              br_endMatch = Some [''END>>>'']\<rparr>,
             \<lparr>br_from = 5, br_to = 3, br_beginMatch = Some [''<<<BEGIN''],
              br_endMatch = Some [''END>>>'']\<rparr>],
          startLastIndex = 0, endLastIndex = 0\<rparr>"
    by (simp add: scan_simps open_tail_doc_def)
  have b: "process (recording_config (literal ''<<<BEGIN'' False) (literal ''END>>>'' False) False)
       (editor_of open_tail_doc 0 2 2) True (no_decorations 0 0)
     = Done \<lparr>st_markers = [],
             st_widgets =
               [\<lparr>lw_id = 1, lw_line = 3, lw_className = ''mk-line-widget'',
                 lw_node = [Rendered (Some (Some [''<<<BEGIN''], Some [''END>>>''], [], 5, 3)),
                            EditButton]\<rparr>],
             st_next_id = 2, st_mutations = [WidgetAdded 1],
             st_startLastIndex = 0, st_endLastIndex = 0\<rparr>"
    by (simp add: process_def scan2 sample_simps)
       (simp add: mark_simps open_tail_doc_def)
  from a b show ?thesis by (rule conjI)
qed

text \<open>
  Claim C6, as amended. Let the block ranges found by the scan be pairwise disjoint and
  increasing (\<open>process_scan_separated\<close>: always so in viewport mode, and in full-document
  mode unless the scan ends inside an open block above the end of the viewport), let \<open>r\<close>
  be one of them with the cursor inside \<open>[fromLine, toLine]\<close>, and let the store before
  the pass hold at most one marker of the engine on the block and at most one widget of
  the engine on \<open>toLine\<close>, its objects having distinct identities; the other ranges may be
  in any state. If the pass returns, then after the whole pass: no marker of the engine
  is on the block, and every marker that spans exactly the lines of the block was in the
  store before the pass, so none has been created for it; if \<open>renderWhenEditing\<close> is set,
  exactly one widget of the engine is on \<open>toLine\<close> and its content is what the renderer
  returned for the interior lines - the same object, updated in place, when one was there
  and the marker had not moved, an object that was not in the store when none was there;
  if \<open>renderWhenEditing\<close> is not set, no widget of the engine is on \<open>toLine\<close>.
\<close>

theorem cursor_inside_after_pass:
  assumes wf: "wf_state s"
    and scan: "process_scan (blockStartTokenRegexp cfg) (blockEndTokenRegex cfg) (ed_lines ed)
                 (ed_viewport_from ed) (ed_viewport_to ed) afterSetValue
                 (st_startLastIndex s) (st_endLastIndex s) = Inr st"
    and sep: "well_separated (blockRangeList st)"
    and r: "r \<in> set (blockRangeList st)"
    and inside: "br_from r \<le> pos_line (ed_cursor ed)" "pos_line (ed_cursor ed) \<le> br_to r"
    and one_marker: "length (tagged_found cfg s (from_pos r) (to_pos ed r)) \<le> 1"
    and one_widget: "length (class_widgets_at cfg s (br_to r)) \<le> 1"
    and res: "process cfg ed afterSetValue s = Done s'"
  shows "tagged_found cfg s' (from_pos r) (to_pos ed r) = []
       \<and> (\<forall>m\<in>set (st_markers s'). span_matches r m \<longrightarrow> m \<in> set (st_markers s))
       \<and> (renderWhenEditing cfg \<longrightarrow>
            (\<exists>w element.
               class_widgets_at cfg s' (br_to r) = [w] \<and>
               renderer cfg (br_beginMatch r) (br_endMatch r)
                 (blockContent ed (br_from r) (br_to r)) (br_from r) (br_to r) = Some element \<and>
               lw_node w = [Rendered element] \<and>
               (class_widgets_at cfg s (br_to r) = [] \<longrightarrow> lw_id w \<notin> widget_ids s) \<and>
               (class_widgets_at cfg s (br_to r) \<noteq> [] \<and>
                list_all (span_matches r) (tagged_found cfg s (from_pos r) (to_pos ed r)) \<longrightarrow>
                  lw_id w = lw_id (hd (class_widgets_at cfg s (br_to r))))))
       \<and> (\<not> renderWhenEditing cfg \<longrightarrow> class_widgets_at cfg s' (br_to r) = [])"
proof -
  let ?f = "from_pos r" and ?t = "to_pos ed r"
  define sz where
    "sz = s\<lparr>st_startLastIndex := startLastIndex st, st_endLastIndex := endLastIndex st\<rparr>"
  have wfz: "wf_state sz" using wf by (simp add: sz_def)
  have mz: "st_markers sz = st_markers s" and nz: "st_next_id sz = st_next_id s"
    and tfz: "tagged_found cfg sz ?f ?t = tagged_found cfg s ?f ?t"
    and cwz: "class_widgets_at cfg sz n = class_widgets_at cfg s n" for n
    by (simp_all add: sz_def)
  from res have all: "markRanges cfg ed (blockRangeList st) sz = Done s'"
    by (simp add: process_ranges [OF scan] sz_def)
  from r obtain pre post where sp: "blockRangeList st = pre @ r # post"
    by (auto dest: split_list)
  note ap = well_separated_apart [OF sep [unfolded sp]]
  from ap(3) have le: "br_from r \<le> br_to r" by simp
  from markRanges_split [OF all [unfolded sp]] obtain sa where
    pre: "markRanges cfg ed pre sz = Done sa" and rest: "markRanges cfg ed (r # post) sa = Done s'"
    by blast
  from rest obtain sb where
    one: "mark_range cfg ed r sa = Done sb" and post: "markRanges cfg ed post sb = Done s'"
    by (auto split: outcome.splits)
  from markRanges_undisturbed [OF wfz ap(1) le pre] have ua: "undisturbed cfg ed r sz sa" .
  then have wfa: "wf_state sa" and nxa: "st_next_id sz \<le> st_next_id sa"
    and suba: "set (tagged_found cfg sa ?f ?t) \<subseteq> set (tagged_found cfg sz ?f ?t)"
    and cwa: "class_widgets_at cfg sa (br_to r) = class_widgets_at cfg sz (br_to r)"
    and olda: "\<forall>m\<in>set (st_markers sa). span_matches r m \<longrightarrow> m \<in> set (st_markers sz)"
    using le by (simp_all add: undisturbed_def)
  from undisturbed_length [OF ua] one_marker
  have oma: "length (tagged_found cfg sa ?f ?t) \<le> 1" by (simp add: tfz)
  from one_widget have owa: "length (class_widgets_at cfg sa (br_to r)) \<le> 1"
    by (simp add: cwa cwz)
  from cursor_inside_range [OF wfa inside oma owa one]
  have tfb: "tagged_found cfg sb ?f ?t = []"
    and subb: "set (st_markers sb) \<subseteq> set (st_markers sa)"
    and rw: "renderWhenEditing cfg \<longrightarrow>
            (\<exists>w element.
               class_widgets_at cfg sb (br_to r) = [w] \<and>
               renderer cfg (br_beginMatch r) (br_endMatch r)
                 (blockContent ed (br_from r) (br_to r)) (br_from r) (br_to r) = Some element \<and>
               lw_node w = [Rendered element] \<and>
               (class_widgets_at cfg sa (br_to r) = [] \<longrightarrow> lw_id w = st_next_id sa) \<and>
               (class_widgets_at cfg sa (br_to r) \<noteq> [] \<and>
                list_all (span_matches r) (tagged_found cfg sa ?f ?t) \<longrightarrow>
                  lw_id w = lw_id (hd (class_widgets_at cfg sa (br_to r)))))"
    and nrw: "\<not> renderWhenEditing cfg \<longrightarrow> class_widgets_at cfg sb (br_to r) = []"
    by blast+
  from mark_range_local [OF wfa le, of ed cfg] one have wfb: "wf_state sb"
    by (simp add: local_step_def)
  from markRanges_undisturbed [OF wfb ap(2) le post] have ub: "undisturbed cfg ed r sb s'" .
  then have subz: "set (tagged_found cfg s' ?f ?t) \<subseteq> set (tagged_found cfg sb ?f ?t)"
    and cwb: "class_widgets_at cfg s' (br_to r) = class_widgets_at cfg sb (br_to r)"
    and oldb: "\<forall>m\<in>set (st_markers s'). span_matches r m \<longrightarrow> m \<in> set (st_markers sb)"
    using le by (simp_all add: undisturbed_def)
  from subz tfb have c1: "tagged_found cfg s' ?f ?t = []" by simp
  from oldb subb olda have c2:
    "\<forall>m\<in>set (st_markers s'). span_matches r m \<longrightarrow> m \<in> set (st_markers s)"
    by (auto simp: mz)
  have fresh: "st_next_id sa \<notin> widget_ids s"
    using wf nxa by (auto simp: widget_ids_def wf_state_def list_all_iff nz)
  have sm: "list_all (span_matches r) (tagged_found cfg s ?f ?t) \<Longrightarrow>
            list_all (span_matches r) (tagged_found cfg sa ?f ?t)"
    using suba by (auto simp: list_all_iff tfz)
  have c3: "renderWhenEditing cfg \<longrightarrow>
            (\<exists>w element.
               class_widgets_at cfg s' (br_to r) = [w] \<and>
               renderer cfg (br_beginMatch r) (br_endMatch r)
                 (blockContent ed (br_from r) (br_to r)) (br_from r) (br_to r) = Some element \<and>
               lw_node w = [Rendered element] \<and>
               (class_widgets_at cfg s (br_to r) = [] \<longrightarrow> lw_id w \<notin> widget_ids s) \<and>
               (class_widgets_at cfg s (br_to r) \<noteq> [] \<and>
                list_all (span_matches r) (tagged_found cfg s ?f ?t) \<longrightarrow>
                  lw_id w = lw_id (hd (class_widgets_at cfg s (br_to r)))))"
  proof
    assume "renderWhenEditing cfg"
    with rw obtain w element where
      a: "class_widgets_at cfg sb (br_to r) = [w]"
      and b: "renderer cfg (br_beginMatch r) (br_endMatch r)
                 (blockContent ed (br_from r) (br_to r)) (br_from r) (br_to r) = Some element"
      and c: "lw_node w = [Rendered element]"
      and d: "class_widgets_at cfg sa (br_to r) = [] \<longrightarrow> lw_id w = st_next_id sa"
      and e: "class_widgets_at cfg sa (br_to r) \<noteq> [] \<and>
                list_all (span_matches r) (tagged_found cfg sa ?f ?t) \<longrightarrow>
                  lw_id w = lw_id (hd (class_widgets_at cfg sa (br_to r)))"
      by blast
    from d fresh have d': "class_widgets_at cfg s (br_to r) = [] \<longrightarrow> lw_id w \<notin> widget_ids s"
      by (simp add: cwa cwz)
    from e sm have e': "class_widgets_at cfg s (br_to r) \<noteq> [] \<and>
                list_all (span_matches r) (tagged_found cfg s ?f ?t) \<longrightarrow>
                  lw_id w = lw_id (hd (class_widgets_at cfg s (br_to r)))"
      by (auto simp: cwa cwz)
    from a b c d' e' show "\<exists>w element.
               class_widgets_at cfg s' (br_to r) = [w] \<and>
               renderer cfg (br_beginMatch r) (br_endMatch r)
                 (blockContent ed (br_from r) (br_to r)) (br_from r) (br_to r) = Some element \<and>
               lw_node w = [Rendered element] \<and>
               (class_widgets_at cfg s (br_to r) = [] \<longrightarrow> lw_id w \<notin> widget_ids s) \<and>
               (class_widgets_at cfg s (br_to r) \<noteq> [] \<and>
                list_all (span_matches r) (tagged_found cfg s ?f ?t) \<longrightarrow>
                  lw_id w = lw_id (hd (class_widgets_at cfg s (br_to r))))"
      unfolding cwb by blast
  qed
  from nrw have c4: "\<not> renderWhenEditing cfg \<longrightarrow> class_widgets_at cfg s' (br_to r) = []"
    by (simp add: cwb)
  from c1 c2 c3 c4 show ?thesis by blast
qed

theorem cursor_inside_after_pass_witness:
  "wf_state collapsed_state
   \<and> process_scan (literal ''<<<BEGIN'' False) (literal ''END>>>'' False) sample_doc 0 2 True 0 0
     = Inr \<lparr>meetBeginToken = False, prevBeginTokenLineNumber = - 1,
            beginMatch = Some [''<<<BEGIN''], blockRangeList = [sample_range],
            startLastIndex = 0, endLastIndex = 0\<rparr>
   \<and> well_separated [sample_range]
   \<and> br_from sample_range \<le> pos_line (ed_cursor (editor_of sample_doc 0 2 2))
   \<and> pos_line (ed_cursor (editor_of sample_doc 0 2 2)) \<le> br_to sample_range
   \<and> length (tagged_found
        (recording_config (literal ''<<<BEGIN'' False) (literal ''END>>>'' False) False)
        collapsed_state (from_pos sample_range)
        (to_pos (editor_of sample_doc 0 2 2) sample_range)) \<le> 1
   \<and> length (class_widgets_at
        (recording_config (literal ''<<<BEGIN'' False) (literal ''END>>>'' False) False)
        collapsed_state (br_to sample_range)) \<le> 1
   \<and> process (recording_config (literal ''<<<BEGIN'' False) (literal ''END>>>'' False) False)
        (editor_of sample_doc 0 2 2) True collapsed_state
      = Done \<lparr>st_markers = [], st_widgets = [], st_next_id = 2,
              st_mutations = [MarkerCleared 0, WidgetCleared 1],
              st_startLastIndex = 0, st_endLastIndex = 0\<rparr>
   \<and> tagged_found (recording_config (literal ''<<<BEGIN'' False) (literal ''END>>>'' False) False)
        \<lparr>st_markers = [], st_widgets = [], st_next_id = 2,
         st_mutations = [MarkerCleared 0, WidgetCleared 1],
         st_startLastIndex = 0, st_endLastIndex = 0\<rparr>
        (from_pos sample_range) (to_pos (editor_of sample_doc 0 2 2) sample_range) = []
   \<and> class_widgets_at
        (recording_config (literal ''<<<BEGIN'' False) (literal ''END>>>'' False) False)
        \<lparr>st_markers = [], st_widgets = [], st_next_id = 2,
         st_mutations = [MarkerCleared 0, WidgetCleared 1],
         st_startLastIndex = 0, st_endLastIndex = 0\<rparr>
        (br_to sample_range) = []"
proof -
  let ?cfg = "recording_config (literal ''<<<BEGIN'' False) (literal ''END>>>'' False) False"
  let ?ed = "editor_of sample_doc 0 2 2"
  let ?st = "\<lparr>meetBeginToken = False, prevBeginTokenLineNumber = - 1,
            beginMatch = Some [''<<<BEGIN''], blockRangeList = [sample_range],
            startLastIndex = 0, endLastIndex = 0\<rparr>"
  let ?s' = "\<lparr>st_markers = [], st_widgets = [], st_next_id = 2,
              st_mutations = [MarkerCleared 0, WidgetCleared 1],
              st_startLastIndex = 0, st_endLastIndex = 0\<rparr> :: call state"
  have wf: "wf_state collapsed_state"
    by (simp add: wf_state_def collapsed_state_def)
  have sc: "process_scan (literal ''<<<BEGIN'' False) (literal ''END>>>'' False) sample_doc
              0 2 True 0 0 = Inr ?st"
    by (simp add: sample_scan sample_range_def)
  then have scan: "process_scan (blockStartTokenRegexp ?cfg) (blockEndTokenRegex ?cfg)
                (ed_lines ?ed) (ed_viewport_from ?ed) (ed_viewport_to ?ed) True
                (st_startLastIndex collapsed_state) (st_endLastIndex collapsed_state) = Inr ?st"
    by (simp add: recording_config_def editor_of_def collapsed_state_def)
  have sep1: "well_separated [sample_range]"
    by (simp add: well_separated_def sample_range_def)
  then have sep: "well_separated (blockRangeList ?st)" by simp
  have r: "sample_range \<in> set (blockRangeList ?st)" by simp
  have inside: "br_from sample_range \<le> pos_line (ed_cursor ?ed)"
    "pos_line (ed_cursor ?ed) \<le> br_to sample_range"
    by (simp_all add: sample_range_def editor_of_def)
  have one_marker: "length (tagged_found ?cfg collapsed_state (from_pos sample_range)
                      (to_pos ?ed sample_range)) \<le> 1"
    by (simp add: tagged_found_def findMarks_def collapsed_state_def)
  have one_widget: "length (class_widgets_at ?cfg collapsed_state (br_to sample_range)) \<le> 1"
    by (simp add: class_widgets_at_def collapsed_state_def)
  have res: "process ?cfg ?ed True collapsed_state = Done ?s'"
    by (simp add: sample_collapsed_pass)
  have nrw: "\<not> renderWhenEditing ?cfg" by (simp add: recording_config_def)
  from cursor_inside_after_pass [OF wf scan sep r inside one_marker one_widget res] nrw
  have "tagged_found ?cfg ?s' (from_pos sample_range) (to_pos ?ed sample_range) = []"
    "class_widgets_at ?cfg ?s' (br_to sample_range) = []"
    by blast+
  with wf sc sep1 inside one_marker one_widget res show ?thesis by blast
qed

section \<open>A second pass with nothing changed\<close>

subsection \<open>The first pass settles a block\<close>

lemma tagged_found_clear_marker [simp]:
  "tagged_found cfg (clear_marker i s) f t = filter (\<lambda>m. tm_id m \<noteq> i) (tagged_found cfg s f t)"
  by (auto simp: tagged_found_markers intro: filter_cong)

lemma tagged_found_clear_widget [simp]:
  "tagged_found cfg (clear_widget i s) f t = tagged_found cfg s f t"
  by (simp add: tagged_found_markers)

lemma tagged_found_sweep [simp]:
  "tagged_found cfg (sweep_widgets cfg ns s) f t = tagged_found cfg s f t"
  by (simp add: tagged_found_markers)

lemma check_cases:
  assumes fl: "pos_line f = br_from r" and tl: "pos_line t = br_to r"
    and one_marker: "length (tagged_found cfg s f t) \<le> 1"
    and one_widget: "length (class_widgets_at cfg s (br_to r)) \<le> 1"
    and cm: "check_marks cfg f t (tagged_found cfg s f t) (None, None, s) = (em, ew, s1)"
  shows "(tagged_found cfg s f t = [] \<and> em = None \<and> s1 = s)
       \<or> (\<exists>m. tagged_found cfg s f t = [m] \<and> class_widgets_at cfg s (br_to r) = [] \<and>
              em = None \<and> s1 = clear_marker (tm_id m) s)
       \<or> (\<exists>m w. tagged_found cfg s f t = [m] \<and> class_widgets_at cfg s (br_to r) = [w] \<and>
              span_matches r m \<and> em = Some (tm_id m) \<and> s1 = s)
       \<or> (\<exists>m w. tagged_found cfg s f t = [m] \<and> class_widgets_at cfg s (br_to r) = [w] \<and>
              \<not> span_matches r m \<and> em = Some (tm_id m) \<and>
              s1 = clear_widget (lw_id w) (clear_marker (tm_id m) s))"
proof (cases "tagged_found cfg s f t")
  case Nil
  with cm show ?thesis by simp
next
  case (Cons m rest)
  with one_marker have tf: "tagged_found cfg s f t = [m]" by simp
  from tagged_found_member [of m cfg s f t] tf
  have tag: "tm_className m = MARKER_CLASS_NAME cfg" by simp
  from cm tf have c1: "check_mark cfg f t m (None, None, s) = (em, ew, s1)" by simp
  show ?thesis
  proof (cases "class_widgets_at cfg s (br_to r)")
    case Nil
    with c1 tag tl have "em = None" "s1 = clear_marker (tm_id m) s"
      by (auto simp: check_mark_def findLineWidgetAtLine_class Let_def split: if_splits)
    with tf Nil show ?thesis by simp
  next
    case (Cons w ws)
    with one_widget have W: "class_widgets_at cfg s (br_to r) = [w]" by simp
    show ?thesis
    proof (cases "span_matches r m")
      case True
      with c1 tag tl fl W have "em = Some (tm_id m)" "s1 = s"
        by (auto simp: check_mark_def findLineWidgetAtLine_class Let_def span_matches_def
                 split: if_splits)
      with tf W True show ?thesis by simp
    next
      case False
      with c1 tag tl fl W have "em = Some (tm_id m)"
        "s1 = clear_widget (lw_id w) (clear_marker (tm_id m) s)"
        by (auto simp: check_mark_def findLineWidgetAtLine_class Let_def span_matches_def
                 split: if_splits)
      with tf W False show ?thesis by simp
    qed
  qed
qed

lemma sweep_clears:
  "wf_state s \<Longrightarrow> distinct ns \<Longrightarrow> \<forall>n\<in>set ns. length (class_widgets_at cfg s n) \<le> 1 \<Longrightarrow>
   \<forall>n\<in>set ns. class_widgets_at cfg (sweep_widgets cfg ns s) n = []"
proof (induction ns arbitrary: s)
  case Nil
  show ?case by simp
next
  case (Cons k ns)
  define sk where "sk = (case findLineWidgetAtLine s k (lineWidgetClassName cfg) of
                           None \<Rightarrow> s | Some w \<Rightarrow> clear_widget (lw_id w) s)"
  have sw: "sweep_widgets cfg (k # ns) s = sweep_widgets cfg ns sk" by (simp add: sk_def)
  have wfk: "wf_state sk" using Cons.prems(1) by (simp add: sk_def split: option.splits)
  from Cons.prems(3) have k1: "length (class_widgets_at cfg s k) \<le> 1" by simp
  have kk: "class_widgets_at cfg sk k = []"
  proof (cases "class_widgets_at cfg s k")
    case Nil
    then show ?thesis by (simp add: sk_def findLineWidgetAtLine_class)
  next
    case (Cons w ws)
    with k1 have "class_widgets_at cfg s k = [w]" by simp
    then show ?thesis
      by (simp add: sk_def findLineWidgetAtLine_class class_widgets_at_clear_widget)
  qed
  have other: "class_widgets_at cfg sk n = class_widgets_at cfg s n" if "n \<noteq> k" for n
  proof (cases "findLineWidgetAtLine s k (lineWidgetClassName cfg)")
    case None
    then show ?thesis by (simp add: sk_def)
  next
    case (Some w)
    from find_widget_member [OF Some] that
    have "w \<in> set (st_widgets s)" "lw_line w \<noteq> n" by auto
    from class_widgets_at_clear_other [OF Cons.prems(1) this] Some show ?thesis
      by (simp add: sk_def)
  qed
  from Cons.prems(2) have d: "distinct ns" and kn: "k \<notin> set ns" by simp_all
  have "\<forall>n\<in>set ns. length (class_widgets_at cfg sk n) \<le> 1"
  proof
    fix n assume n: "n \<in> set ns"
    with kn have "n \<noteq> k" by auto
    from other [OF this] Cons.prems(3) n
    show "length (class_widgets_at cfg sk n) \<le> 1" by simp
  qed
  from Cons.IH [OF wfk d this]
  have rest: "\<forall>n\<in>set ns. class_widgets_at cfg (sweep_widgets cfg ns sk) n = []" .
  from sweep_other_line [OF wfk kn] kk
  have "class_widgets_at cfg (sweep_widgets cfg ns sk) k = []" by simp
  with rest show ?case unfolding sw by simp
qed

lemma class_widgets_at_add_other:
  "n \<noteq> k \<Longrightarrow>
   class_widgets_at cfg (snd (addLineWidget k node cls s)) n = class_widgets_at cfg s n"
  by (simp add: class_widgets_at_def addLineWidget_def Let_def)

lemma cursor_inside_inner:
  assumes "cursor_inside cfg r f t content em s2 = Done s'"
    and "class_widgets_at cfg s2 n = []" and "n \<noteq> pos_line t"
  shows "class_widgets_at cfg s' n = []"
proof -
  define s3 where "s3 = (case em of None \<Rightarrow> s2 | Some m \<Rightarrow> clear_marker m s2)"
  have e3: "class_widgets_at cfg s3 n = []"
    using assms(2) by (simp add: s3_def split: option.splits)
  from assms(1) e3 assms(3) show ?thesis
    by (auto simp: cursor_inside_def s3_def [symmetric] Let_def class_widgets_at_add_other
                class_widgets_at_clear_widget class_widgets_at_rebuild
             split: option.splits if_splits)
qed


lemma cursor_outside_preclear:
  assumes "findLineWidgetAtLine s3 (pos_line t) (lineWidgetClassName cfg) = None"
    and "(case findLineWidgetAtLine s2 (pos_line t) (lineWidgetClassName cfg) of
            None \<Rightarrow> s2 | Some w \<Rightarrow> clear_widget (lw_id w) s2) = s3"
  shows "cursor_outside cfg r f t c None s2 = cursor_outside cfg r f t c None s3"
  by (simp add: cursor_outside_def assms)

lemma calm_result:
  assumes wf: "wf_state s" and calm: "calm cfg ed r s" and lt: "br_from r < br_to r"
    and res: "mark_range cfg ed r s = Done s'"
  shows "settled cfg ed r s'"
proof -
  from res obtain toText where line: "getLine (ed_lines ed) (br_to r) = Some toText"
    by (cases "getLine (ed_lines ed) (br_to r)") (auto simp: mark_range_def)
  let ?f = "from_pos r" and ?t = "to_pos ed r"
  let ?sel = "ed_isRangeSelected ed ?f ?t" and ?out = "isCursorOutRange (ed_cursor ed) ?f ?t"
  let ?content = "blockContent ed (br_from r) (br_to r)"
  let ?inner = "[br_from r .. br_to r - 1]"
  from calm have om: "length (tagged_found cfg s ?f ?t) \<le> 1"
    and all1: "\<forall>n\<in>set [br_from r .. br_to r]. length (class_widgets_at cfg s n) \<le> 1"
    and slip: "?out \<and> \<not> ?sel \<and> class_widgets_at cfg s (br_to r) \<noteq> [] \<longrightarrow>
               list_all (span_matches r) (tagged_found cfg s ?f ?t)"
    by (simp_all add: calm_def list_all_iff)
  from all1 lt have ow: "length (class_widgets_at cfg s (br_to r)) \<le> 1" by simp
  from all1 have in0: "\<forall>n\<in>set ?inner. length (class_widgets_at cfg s n) \<le> 1" by simp
  obtain em ew s1 where cm:
    "check_marks cfg ?f ?t (tagged_found cfg s ?f ?t) (None, None, s) = (em, ew, s1)"
    by (cases "check_marks cfg ?f ?t (tagged_found cfg s ?f ?t) (None, None, s)") auto
  define s2 where "s2 = sweep_widgets cfg ?inner s1"
  note cases = check_cases [OF pos_lines(1) pos_lines(2) om ow cm]
  have wf1: "wf_state s1" using cases wf by auto
  have shrink: "length (class_widgets_at cfg s1 n) \<le> length (class_widgets_at cfg s n)" for n
    using cases by (auto simp: class_widgets_at_clear_widget)
  have in1: "\<forall>n\<in>set ?inner. length (class_widgets_at cfg s1 n) \<le> 1"
    using in0 shrink by (meson le_trans)
  have W1: "length (class_widgets_at cfg s1 (br_to r)) \<le> 1"
    using ow shrink [of "br_to r"] by simp
  have G4: "em = None \<longrightarrow> tagged_found cfg s1 ?f ?t = []"
    using cases by auto
  have G5: "\<forall>i. em = Some i \<longrightarrow> filter (\<lambda>x. tm_id x \<noteq> i) (tagged_found cfg s1 ?f ?t) = []"
    using cases by auto
  have G6: "?out \<and> \<not> ?sel \<and> em \<noteq> None \<longrightarrow>
            (\<exists>m. tagged_found cfg s1 ?f ?t = [m] \<and> span_matches r m) \<and>
            class_widgets_at cfg s1 (br_to r) \<noteq> []"
    using cases slip by auto
  have wf2: "wf_state s2" using wf1 by (simp add: s2_def)
  have tf2: "tagged_found cfg s2 ?f ?t = tagged_found cfg s1 ?f ?t" by (simp add: s2_def)
  have W2: "class_widgets_at cfg s2 (br_to r) = class_widgets_at cfg s1 (br_to r)"
    unfolding s2_def by (rule sweep_other_line [OF wf1]) simp
  have inner2: "\<forall>n\<in>set ?inner. class_widgets_at cfg s2 n = []"
    unfolding s2_def by (rule sweep_clears [OF wf1 _ in1]) simp
  have unf: "mark_range cfg ed r s =
     (if ?sel \<and> ?out then selected_outside em ew s2
      else if ?out then cursor_outside cfg r ?f ?t ?content em s2
      else cursor_inside cfg r ?f ?t ?content em s2)"
    by (simp add: mark_range_unfold [OF line cm] s2_def)
  have lineN: "getLine (ed_lines ed) (br_to r) \<noteq> None" using line by simp
  consider (sel) "?sel \<and> ?out" | (out) "\<not> ?sel" "?out" | (ins) "\<not> ?out" by blast
  then show ?thesis
  proof cases
    case sel
    with res unf have so: "selected_outside em ew s2 = Done s'" by simp
    have "tagged_found cfg s' ?f ?t = [] \<and>
          (\<forall>n\<in>set ?inner. class_widgets_at cfg s' n = [])"
    proof (cases em)
      case None
      with so have "s' = s2" by (simp add: selected_outside_def)
      with None G4 tf2 inner2 show ?thesis by simp
    next
      case (Some i)
      with so obtain j where "s' = clear_widget j (clear_marker i s2)"
        by (auto simp: selected_outside_def split: option.splits)
      with Some G5 tf2 inner2 show ?thesis
        by (simp add: class_widgets_at_clear_widget)
    qed
    with sel lineN show ?thesis by (simp add: settled_def list_all_iff)
  next
    case out
    with res unf have co: "cursor_outside cfg r ?f ?t ?content em s2 = Done s'" by simp
    show ?thesis
    proof (cases em)
      case (Some i)
      with co have "s' = s2" by (simp add: cursor_outside_def)
      with Some out G6 tf2 W2 inner2 lineN show ?thesis
        by (simp add: settled_def list_all_iff)
    next
      case None
      define s3 where "s3 = (case findLineWidgetAtLine s2 (br_to r) (lineWidgetClassName cfg) of
                               None \<Rightarrow> s2 | Some w \<Rightarrow> clear_widget (lw_id w) s2)"
      have wf3: "wf_state s3" using wf2 by (simp add: s3_def split: option.splits)
      have tf3: "tagged_found cfg s3 ?f ?t = []"
        using None G4 tf2 by (simp add: s3_def split: option.splits)
      have W3: "class_widgets_at cfg s3 (br_to r) = []"
      proof (cases "class_widgets_at cfg s2 (br_to r)")
        case Nil
        then show ?thesis by (simp add: s3_def findLineWidgetAtLine_class)
      next
        case (Cons w ws)
        with W1 W2 have "length (w # ws) \<le> 1" by simp
        then have "ws = []" by simp
        with Cons have "class_widgets_at cfg s2 (br_to r) = [w]" by simp
        then show ?thesis
          by (simp add: s3_def findLineWidgetAtLine_class class_widgets_at_clear_widget)
      qed
      have inner3: "\<forall>n\<in>set ?inner. class_widgets_at cfg s3 n = []"
        using inner2 by (auto simp: s3_def class_widgets_at_clear_widget split: option.splits)
      from W3 inner3 lt have "\<forall>n\<in>set [br_from r .. br_to r]. class_widgets_at cfg s3 n = []"
        by (auto simp: less_le)
      with tf3 have cl: "clean cfg ed r s3" by (simp add: clean_def list_all_iff)
      have "cursor_outside cfg r ?f ?t ?content None s2
            = cursor_outside cfg r ?f ?t ?content None s3"
      proof (rule cursor_outside_preclear)
        show "findLineWidgetAtLine s3 (pos_line ?t) (lineWidgetClassName cfg) = None"
          using W3 by (simp add: findLineWidgetAtLine_class)
        show "(case findLineWidgetAtLine s2 (pos_line ?t) (lineWidgetClassName cfg) of
                 None \<Rightarrow> s2 | Some w \<Rightarrow> clear_widget (lw_id w) s2) = s3"
          by (simp add: s3_def)
      qed
      moreover have "mark_range cfg ed r s3 = cursor_outside cfg r ?f ?t ?content None s3"
      proof -
        from tf3 have cm3: "check_marks cfg ?f ?t (tagged_found cfg s3 ?f ?t) (None, None, s3)
                            = (None, None, s3)" by simp
        from out show ?thesis
          by (simp add: mark_range_unfold [OF line cm3] sweep_nothing [OF inner3])
      qed
      ultimately have "mark_range cfg ed r s3 = Done s'" using co None by simp
      from clean_result [OF wf3 cl lt this] show ?thesis by simp
    qed
  next
    case ins
    with res unf have ci: "cursor_inside cfg r ?f ?t ?content em s2 = Done s'" by simp
    from W1 W2 have one2: "length (class_widgets_at cfg s2 (br_to r)) \<le> 1" by simp
    from cursor_inside_result [OF pos_lines(2) one2 ci]
    have mk: "st_markers s' = st_markers (case em of None \<Rightarrow> s2 | Some m \<Rightarrow> clear_marker m s2)"
      and rw: "renderWhenEditing cfg \<longrightarrow>
            (\<exists>w element.
               class_widgets_at cfg s' (br_to r) = [w] \<and>
               renderer cfg (br_beginMatch r) (br_endMatch r) ?content (br_from r) (br_to r)
                 = Some element \<and>
               lw_node w = [Rendered element])"
      and nrw: "\<not> renderWhenEditing cfg \<longrightarrow> class_widgets_at cfg s' (br_to r) = []"
      by auto
    have "tagged_found cfg s' ?f ?t
          = tagged_found cfg (case em of None \<Rightarrow> s2 | Some m \<Rightarrow> clear_marker m s2) ?f ?t"
      by (simp only: tagged_found_markers mk)
    with G4 G5 tf2 have tf': "tagged_found cfg s' ?f ?t = []"
      by (cases em) simp_all
    have inner': "\<forall>n\<in>set ?inner. class_widgets_at cfg s' n = []"
    proof
      fix n assume n: "n \<in> set ?inner"
      with inner2 have "class_widgets_at cfg s2 n = []" by simp
      from cursor_inside_inner [OF ci this] n show "class_widgets_at cfg s' n = []" by simp
    qed
    from ins tf' inner' rw nrw lineN show ?thesis
      by (auto simp: settled_def list_all_iff)
  qed
qed


lemma calm_undisturbed:
  assumes u: "undisturbed cfg ed r s s'" and le: "br_from r \<le> br_to r"
    and calm: "calm cfg ed r s"
  shows "calm cfg ed r s'"
proof -
  let ?f = "from_pos r" and ?t = "to_pos ed r"
  from u have sub: "set (tagged_found cfg s' ?f ?t) \<subseteq> set (tagged_found cfg s ?f ?t)"
    and cw: "\<And>n. br_from r \<le> n \<Longrightarrow> n \<le> br_to r \<Longrightarrow>
                  class_widgets_at cfg s' n = class_widgets_at cfg s n"
    by (simp_all add: undisturbed_def)
  from undisturbed_length [OF u] calm
  have a: "length (tagged_found cfg s' ?f ?t) \<le> 1" by (simp add: calm_def)
  from calm cw
  have b: "list_all (\<lambda>n. length (class_widgets_at cfg s' n) \<le> 1) [br_from r .. br_to r]"
    by (simp add: calm_def list_all_iff)
  from le have wt: "class_widgets_at cfg s' (br_to r) = class_widgets_at cfg s (br_to r)"
    by (simp add: cw)
  have c: "isCursorOutRange (ed_cursor ed) ?f ?t \<and> \<not> ed_isRangeSelected ed ?f ?t \<and>
           class_widgets_at cfg s' (br_to r) \<noteq> [] \<longrightarrow>
           list_all (span_matches r) (tagged_found cfg s' ?f ?t)"
    using calm sub unfolding calm_def wt list_all_iff by blast
  from a b c show ?thesis by (simp add: calm_def)
qed

lemma distinct_single: "distinct xs \<Longrightarrow> set xs = {x} \<Longrightarrow> xs = [x]"
  by (cases xs) (auto simp: subset_singleton_iff)

lemma undisturbed_same_view:
  assumes u: "undisturbed cfg ed r s s'"
    and om: "length (tagged_found cfg s (from_pos r) (to_pos ed r)) \<le> 1"
    and sm: "list_all (span_matches r) (tagged_found cfg s (from_pos r) (to_pos ed r))"
  shows "same_view cfg ed r s s'"
proof -
  let ?f = "from_pos r" and ?t = "to_pos ed r"
  from u have wf': "wf_state s'"
    and sub: "set (tagged_found cfg s' ?f ?t) \<subseteq> set (tagged_found cfg s ?f ?t)"
    and kept: "\<forall>m\<in>set (tagged_found cfg s ?f ?t). span_matches r m \<longrightarrow>
                 m \<in> set (tagged_found cfg s' ?f ?t)"
    and cw: "\<forall>n. br_from r \<le> n \<and> n \<le> br_to r \<longrightarrow>
                  class_widgets_at cfg s' n = class_widgets_at cfg s n"
    by (simp_all add: undisturbed_def)
  from sub kept sm have eq: "set (tagged_found cfg s' ?f ?t) = set (tagged_found cfg s ?f ?t)"
    by (auto simp: list_all_iff)
  have "tagged_found cfg s' ?f ?t = tagged_found cfg s ?f ?t"
  proof (cases "tagged_found cfg s ?f ?t")
    case Nil
    with eq show ?thesis by simp
  next
    case (Cons m ms)
    with om have tf: "tagged_found cfg s ?f ?t = [m]" by simp
    with eq have "set (tagged_found cfg s' ?f ?t) = {m}" by simp
    from distinct_single [OF tagged_found_distinct [OF wf'] this] tf show ?thesis by simp
  qed
  with cw show ?thesis by (simp add: same_view_def list_all_iff)
qed

lemma settled_undisturbed:
  assumes u: "undisturbed cfg ed r s s'" and le: "br_from r \<le> br_to r"
    and st: "settled cfg ed r s"
  shows "settled cfg ed r s'"
proof -
  from st have "length (tagged_found cfg s (from_pos r) (to_pos ed r)) \<le> 1"
    "list_all (span_matches r) (tagged_found cfg s (from_pos r) (to_pos ed r))"
    by (auto simp: settled_def split: if_splits)
  from settled_same_view [OF undisturbed_same_view [OF u this] le st] show ?thesis .
qed

lemma first_pass_calm:
  "wf_state s \<Longrightarrow> well_separated rs \<Longrightarrow> \<forall>r\<in>set rs. calm cfg ed r s \<Longrightarrow>
   markRanges cfg ed rs s = Done s1 \<Longrightarrow>
   wf_state s1 \<and> (\<forall>r\<in>set rs. settled cfg ed r s1) \<and>
   st_startLastIndex s1 = st_startLastIndex s \<and> st_endLastIndex s1 = st_endLastIndex s"
proof (induction rs arbitrary: s)
  case Nil
  then show ?case by simp
next
  case (Cons r rs)
  from Cons.prems(4) obtain s' where
    r: "mark_range cfg ed r s = Done s'" and rest: "markRanges cfg ed rs s' = Done s1"
    by (auto split: outcome.splits)
  from Cons.prems(2) have lt: "br_from r < br_to r" and sep: "well_separated rs"
    and after: "\<forall>r'\<in>set rs. br_to r < br_from r'"
    and lts: "\<forall>r'\<in>set rs. br_from r' < br_to r'"
    by (auto simp: well_separated_def list_all_iff)
  from lt have le: "br_from r \<le> br_to r" by simp
  from Cons.prems(3) have "calm cfg ed r s" by simp
  from calm_result [OF Cons.prems(1) this lt r] have st: "settled cfg ed r s'" .
  from mark_range_local [OF Cons.prems(1) le, of ed cfg] r
  have loc: "local_step (from_pos r) (to_pos ed r) s s'" by simp
  then have wf': "wf_state s'"
    and li: "st_startLastIndex s' = st_startLastIndex s" "st_endLastIndex s' = st_endLastIndex s"
    by (simp_all add: local_step_def)
  have "\<forall>r'\<in>set rs. calm cfg ed r' s'"
  proof
    fix r' assume r': "r' \<in> set rs"
    with after lts have ap: "apart r r'" and le': "br_from r' \<le> br_to r'"
      by (auto simp: apart_def)
    from local_undisturbed [OF loc ap le'] have "undisturbed cfg ed r' s s'" .
    from calm_undisturbed [OF this le'] Cons.prems(3) r' show "calm cfg ed r' s'" by simp
  qed
  from Cons.IH [OF wf' sep this rest]
  have wf1: "wf_state s1" and st1: "\<forall>r\<in>set rs. settled cfg ed r s1"
    and li1: "st_startLastIndex s1 = st_startLastIndex s'"
             "st_endLastIndex s1 = st_endLastIndex s'"
    by auto
  have "\<forall>r0\<in>set rs. apart r0 r \<and> br_from r0 \<le> br_to r0"
    using after lts by (auto simp: apart_def intro: less_imp_le)
  from markRanges_undisturbed [OF wf' this le rest] have "undisturbed cfg ed r s' s1" .
  from settled_undisturbed [OF this le st] have "settled cfg ed r s1" .
  with wf1 st1 li li1 show ?case by simp
qed

lemma rebuilds_of_mutations [simp]:
  "rebuilds_of cfg ed (s\<lparr>st_mutations := l\<rparr>) r = rebuilds_of cfg ed s r"
  by (simp add: rebuilds_of_def class_widgets_at_def)

lemma settled_rebuild:
  assumes wf: "wf_state s" and st: "settled cfg ed r s"
  shows "mark_range cfg ed r s = Done (s\<lparr>st_mutations := st_mutations s @ rebuilds_of cfg ed s r\<rparr>)"
proof -
  from st obtain toText where line: "getLine (ed_lines ed) (br_to r) = Some toText"
    by (auto simp: settled_def)
  from st have inner: "\<forall>n\<in>set [br_from r .. br_to r - 1]. class_widgets_at cfg s n = []"
    by (simp add: settled_def list_all_iff)
  note sw = sweep_nothing [OF inner]
  let ?f = "from_pos r" and ?t = "to_pos ed r"
  let ?sel = "ed_isRangeSelected ed ?f ?t" and ?out = "isCursorOutRange (ed_cursor ed) ?f ?t"
  consider (sel) "?sel \<and> ?out" | (out) "\<not> ?sel" "?out" | (ins) "\<not> ?out" by blast
  then show ?thesis
  proof cases
    case sel
    with st have tf: "tagged_found cfg s ?f ?t = []" by (simp add: settled_def)
    then have cm: "check_marks cfg ?f ?t (tagged_found cfg s ?f ?t) (None, None, s)
                   = (None, None, s)" by simp
    from sel have "mark_range cfg ed r s = Done s"
      by (simp add: mark_range_unfold [OF line cm] sw selected_outside_def)
    with sel show ?thesis by (simp add: rebuilds_of_def)
  next
    case out
    with st obtain m w0 ws where tf: "tagged_found cfg s ?f ?t = [m]"
      and sm: "span_matches r m" and W: "class_widgets_at cfg s (br_to r) = w0 # ws"
      by (auto simp: settled_def neq_Nil_conv)
    from tagged_found_member [of m cfg s ?f ?t] tf
    have tag: "tm_className m = MARKER_CLASS_NAME cfg" by simp
    have cm: "check_marks cfg ?f ?t (tagged_found cfg s ?f ?t) (None, None, s)
              = (Some (tm_id m), Some (lw_id w0), s)"
      using tag sm W
      by (simp add: tf check_mark_def findLineWidgetAtLine_class span_matches_def)
    from out have "mark_range cfg ed r s = Done s"
      by (simp add: mark_range_unfold [OF line cm] sw cursor_outside_def)
    with out show ?thesis by (simp add: rebuilds_of_def)
  next
    case ins
    with st have tf: "tagged_found cfg s ?f ?t = []" by (simp add: settled_def)
    then have cm: "check_marks cfg ?f ?t (tagged_found cfg s ?f ?t) (None, None, s)
                   = (None, None, s)" by simp
    show ?thesis
    proof (cases "renderWhenEditing cfg")
      case False
      with ins st have "class_widgets_at cfg s (br_to r) = []" by (simp add: settled_def)
      with ins False have "mark_range cfg ed r s = Done s"
        by (simp add: mark_range_unfold [OF line cm] sw cursor_inside_def
              findLineWidgetAtLine_class)
      with False show ?thesis by (simp add: rebuilds_of_def)
    next
      case True
      with ins st obtain w element where W: "class_widgets_at cfg s (br_to r) = [w]"
        and node: "lw_node w = [Rendered element]"
        and el: "renderer cfg (br_beginMatch r) (br_endMatch r)
                   (blockContent ed (br_from r) (br_to r)) (br_from r) (br_to r) = Some element"
        by (auto simp: settled_def)
      from wf have d: "distinct (map lw_id (st_widgets s))" by (simp add: wf_state_def)
      from rebuild_same [OF d class_widget_member [OF W] node]
      have same: "append_child (lw_id w) (Rendered element) (empty_node (lw_id w) s)
                  = s\<lparr>st_mutations := st_mutations s @ [NodeEmptied (lw_id w),
                                                          NodeAppended (lw_id w)]\<rparr>"
        by (simp add: rebuild_state)
      from ins True W el have "mark_range cfg ed r s
            = Done (append_child (lw_id w) (Rendered element) (empty_node (lw_id w) s))"
        by (simp add: mark_range_unfold [OF line cm] sw cursor_inside_def
              findLineWidgetAtLine_class)
      with same True ins W show ?thesis by (simp add: rebuilds_of_def)
    qed
  qed
qed

lemma second_pass_rebuilds:
  "wf_state s \<Longrightarrow> \<forall>r\<in>set rs. settled cfg ed r s \<Longrightarrow>
   markRanges cfg ed rs s
   = Done (s\<lparr>st_mutations := st_mutations s @ concat (map (rebuilds_of cfg ed s) rs)\<rparr>)"
proof (induction rs arbitrary: s)
  case Nil
  show ?case by simp
next
  case (Cons r rs)
  let ?s' = "s\<lparr>st_mutations := st_mutations s @ rebuilds_of cfg ed s r\<rparr>"
  from settled_rebuild [OF Cons.prems(1), of cfg ed r] Cons.prems(2)
  have r: "mark_range cfg ed r s = Done ?s'" by simp
  from Cons.prems have "wf_state ?s'" "\<forall>r\<in>set rs. settled cfg ed r ?s'" by simp_all
  from Cons.IH [OF this] r show ?case by simp
qed

subsection \<open>Two passes\<close>

lemma sample_two_passes:
  "process (recording_config (literal ''<<<BEGIN'' False) (literal ''END>>>'' False) True)
     (editor_of sample_doc 0 6 2) False (no_decorations 0 0)
   = Done \<lparr>st_markers = [],
           st_widgets =
             [\<lparr>lw_id = 0, lw_line = 4, lw_className = ''mk-line-widget'',
               lw_node = [Rendered (Some (Some [''<<<BEGIN''], Some [''END>>>''],
                                          ''a'' @ [CHR 0x0A] @ ''b'', 1, 4))]\<rparr>],
           st_next_id = 1, st_mutations = [WidgetAdded 0],
           st_startLastIndex = 0, st_endLastIndex = 0\<rparr>
   \<and> process (recording_config (literal ''<<<BEGIN'' False) (literal ''END>>>'' False) True)
     (editor_of sample_doc 0 6 2) False
     \<lparr>st_markers = [],
      st_widgets =
        [\<lparr>lw_id = 0, lw_line = 4, lw_className = ''mk-line-widget'',
          lw_node = [Rendered (Some (Some [''<<<BEGIN''], Some [''END>>>''],
                                     ''a'' @ [CHR 0x0A] @ ''b'', 1, 4))]\<rparr>],
      st_next_id = 1, st_mutations = [WidgetAdded 0],
      st_startLastIndex = 0, st_endLastIndex = 0\<rparr>
   = Done \<lparr>st_markers = [],
           st_widgets =
             [\<lparr>lw_id = 0, lw_line = 4, lw_className = ''mk-line-widget'',
               lw_node = [Rendered (Some (Some [''<<<BEGIN''], Some [''END>>>''],
                                          ''a'' @ [CHR 0x0A] @ ''b'', 1, 4))]\<rparr>],
           st_next_id = 1,
           st_mutations = [WidgetAdded 0, NodeEmptied 0, NodeAppended 0],
           st_startLastIndex = 0, st_endLastIndex = 0\<rparr>"
proof -
  have scan: "process_scan (literal ''<<<BEGIN'' False) (literal ''END>>>'' False) sample_doc
                0 6 False 0 0
   = Inr \<lparr>meetBeginToken = False, prevBeginTokenLineNumber = - 1,
          beginMatch = Some [''<<<BEGIN''],
          blockRangeList =
            [\<lparr>br_from = 1, br_to = 4, br_beginMatch = Some [''<<<BEGIN''],
              br_endMatch = Some [''END>>>'']\<rparr>],
          startLastIndex = 0, endLastIndex = 0\<rparr>"
    by (simp add: scan_simps sample_doc_def)
  show ?thesis
    by (simp add: process_def scan sample_simps)
       (simp add: mark_simps sample_doc_def)
qed

text \<open>
  Claim C2 says that a second call with nothing changed performs no further DOM mutation
  and rebuilds no widget content. With \<open>renderWhenEditing\<close> set and the cursor on line 2
  of the sample document, the first pass creates the widget on line 4, and the second
  pass, with nothing changed, empties the node of that widget and appends a newly
  rendered element.
\<close>

theorem second_pass_rebuilds_widget:
  "process (recording_config (literal ''<<<BEGIN'' False) (literal ''END>>>'' False) True)
     (editor_of sample_doc 0 6 2) False (no_decorations 0 0)
   = Done \<lparr>st_markers = [],
           st_widgets =
             [\<lparr>lw_id = 0, lw_line = 4, lw_className = ''mk-line-widget'',
               lw_node = [Rendered (Some (Some [''<<<BEGIN''], Some [''END>>>''],
                                          ''a'' @ [CHR 0x0A] @ ''b'', 1, 4))]\<rparr>],
           st_next_id = 1, st_mutations = [WidgetAdded 0],
           st_startLastIndex = 0, st_endLastIndex = 0\<rparr>
   \<and> process (recording_config (literal ''<<<BEGIN'' False) (literal ''END>>>'' False) True)
     (editor_of sample_doc 0 6 2) False
     \<lparr>st_markers = [],
      st_widgets =
        [\<lparr>lw_id = 0, lw_line = 4, lw_className = ''mk-line-widget'',
          lw_node = [Rendered (Some (Some [''<<<BEGIN''], Some [''END>>>''],
                                     ''a'' @ [CHR 0x0A] @ ''b'', 1, 4))]\<rparr>],
      st_next_id = 1, st_mutations = [WidgetAdded 0],
      st_startLastIndex = 0, st_endLastIndex = 0\<rparr>
   = Done \<lparr>st_markers = [],
           st_widgets =
             [\<lparr>lw_id = 0, lw_line = 4, lw_className = ''mk-line-widget'',
               lw_node = [Rendered (Some (Some [''<<<BEGIN''], Some [''END>>>''],
                                          ''a'' @ [CHR 0x0A] @ ''b'', 1, 4))]\<rparr>],
           st_next_id = 1,
           st_mutations = [WidgetAdded 0, NodeEmptied 0, NodeAppended 0],
           st_startLastIndex = 0, st_endLastIndex = 0\<rparr>"
  by (rule sample_two_passes)

text \<open>The loop body keeps one marker in \<open>existingMarker\<close>. With two markers of the engine
  on the same block, a pass clears one of them and the next pass the other: the store
  after the pass below, which starts from the store that a first pass over the doubled
  sample store leaves, is not the store it started from. So the statement that follows
  is about stores with at most one marker of the engine on a block.\<close>

lemma duplicate_markers_drift:
  "process (recording_config (literal ''<<<BEGIN'' False) (literal ''END>>>'' False) True)
     (editor_of sample_doc 0 6 2) False
     \<lparr>st_markers =
        [\<lparr>tm_id = 0, tm_className = ''mk'', tm_from = \<lparr>pos_line = 1, pos_ch = 0\<rparr>,
          tm_to = \<lparr>pos_line = 4, pos_ch = 6\<rparr>, tm_replacedWith = Some None,
          tm_onclick = False\<rparr>],
      st_widgets =
        [\<lparr>lw_id = 1, lw_line = 4, lw_className = ''mk-line-widget'',
          lw_node = [Rendered (Some (Some [''<<<BEGIN''], Some [''END>>>''],
                                     ''a'' @ [CHR 0x0A] @ ''b'', 1, 4))]\<rparr>],
      st_next_id = 3,
      st_mutations = [MarkerCleared 2, NodeEmptied 1, NodeAppended 1],
      st_startLastIndex = 0, st_endLastIndex = 0\<rparr>
   = Done \<lparr>st_markers = [],
           st_widgets =
             [\<lparr>lw_id = 1, lw_line = 4, lw_className = ''mk-line-widget'',
               lw_node = [Rendered (Some (Some [''<<<BEGIN''], Some [''END>>>''],
                                          ''a'' @ [CHR 0x0A] @ ''b'', 1, 4))]\<rparr>],
           st_next_id = 3,
           st_mutations = [MarkerCleared 2, NodeEmptied 1, NodeAppended 1,
                           MarkerCleared 0, NodeEmptied 1, NodeAppended 1],
           st_startLastIndex = 0, st_endLastIndex = 0\<rparr>"
proof -
  have scan: "process_scan (literal ''<<<BEGIN'' False) (literal ''END>>>'' False) sample_doc
                0 6 False 0 0
   = Inr \<lparr>meetBeginToken = False, prevBeginTokenLineNumber = - 1,
          beginMatch = Some [''<<<BEGIN''],
          blockRangeList =
            [\<lparr>br_from = 1, br_to = 4, br_beginMatch = Some [''<<<BEGIN''],
              br_endMatch = Some [''END>>>'']\<rparr>],
          startLastIndex = 0, endLastIndex = 0\<rparr>"
    by (simp add: scan_simps sample_doc_def)
  show ?thesis
    by (simp add: process_def scan sample_simps)
       (simp add: mark_simps sample_doc_def)
qed

text \<open>
  Claim C2, as amended. For every document, cursor, selection and configuration whose two
  patterns carry neither the flag \<open>g\<close> nor the flag \<open>y\<close>: let the block ranges found by
  the scan be pairwise disjoint and increasing (\<open>process_scan_separated\<close>: always so in
  viewport mode, and in full-document mode unless the scan ends inside an open block above
  the end of the viewport), and let the store before the first call satisfy on each of
  these ranges the invariant of the data model - at most one marker of the engine on the
  block, at most one widget of the engine on each of its lines, distinct identities - and
  hold no marker of the engine that has moved off a block whose last line still has its
  widget while the cursor is outside that block and the block is not selected. The store
  may hold the decorations of earlier passes and decorations of other kinds. If the first
  call of \<open>process\<close> returns, then a second call with nothing changed returns too, and it
  leaves the markers, the widgets with their content and the matching state of the
  patterns exactly as the first call left them: it creates nothing and clears nothing.
  Its mutations are exactly these: for each range that holds the cursor, when
  \<open>renderWhenEditing\<close> is set, the node of the widget on the last line of that range is
  emptied and refilled, in the order of the ranges. It performs no mutation when
  \<open>renderWhenEditing\<close> is not set or the cursor is in no range. The second call creates
  no marker, so the refusal of overlapping replacing markers by the host, which
  \<open>markText\<close> here leaves out, plays no part in it.
\<close>

theorem process_twice:
  assumes sl: "stateless (blockStartTokenRegexp cfg)" "stateless (blockEndTokenRegex cfg)"
    and wf: "wf_state s0"
    and scan: "process_scan (blockStartTokenRegexp cfg) (blockEndTokenRegex cfg) (ed_lines ed)
                 (ed_viewport_from ed) (ed_viewport_to ed) afterSetValue
                 (st_startLastIndex s0) (st_endLastIndex s0) = Inr st"
    and sep: "well_separated (blockRangeList st)"
    and calm: "\<forall>r\<in>set (blockRangeList st). calm cfg ed r s0"
    and first: "process cfg ed afterSetValue s0 = Done s1"
  shows "process cfg ed afterSetValue s1
         = Done (s1\<lparr>st_mutations :=
                      st_mutations s1 @ concat (map (rebuilds_of cfg ed s1) (blockRangeList st))\<rparr>)"
proof -
  from process_scan_index [OF sl scan]
  have idx: "startLastIndex st = st_startLastIndex s0" "endLastIndex st = st_endLastIndex s0"
    by simp_all
  have same0: "s0\<lparr>st_startLastIndex := st_startLastIndex s0,
                   st_endLastIndex := st_endLastIndex s0\<rparr> = s0" by simp
  from first have mr1: "markRanges cfg ed (blockRangeList st) s0 = Done s1"
    by (simp add: process_ranges [OF scan] idx same0)
  from first_pass_calm [OF wf sep calm mr1]
  have wf1: "wf_state s1" and st1: "\<forall>r\<in>set (blockRangeList st). settled cfg ed r s1"
    and li: "st_startLastIndex s1 = st_startLastIndex s0"
            "st_endLastIndex s1 = st_endLastIndex s0"
    by simp_all
  have same1: "s1\<lparr>st_startLastIndex := st_startLastIndex s0,
                   st_endLastIndex := st_endLastIndex s0\<rparr> = s1"
    using li by (cases s1) simp
  from scan have scan1:
    "process_scan (blockStartTokenRegexp cfg) (blockEndTokenRegex cfg) (ed_lines ed)
       (ed_viewport_from ed) (ed_viewport_to ed) afterSetValue
       (st_startLastIndex s1) (st_endLastIndex s1) = Inr st"
    by (simp add: li)
  have "process cfg ed afterSetValue s1 = markRanges cfg ed (blockRangeList st) s1"
    by (simp add: process_ranges [OF scan1] idx same1)
  with second_pass_rebuilds [OF wf1 st1] show ?thesis by simp
qed

lemma sample_calm:
  "calm (recording_config (literal ''<<<BEGIN'' False) (literal ''END>>>'' False) rwe)
     (editor_of sample_doc vf vt 2) sample_range collapsed_state"
  by (simp add: calm_def tagged_found_def findMarks_def marker_found_def span_found_def
        class_widgets_at_def lineWidgetClassName_def recording_config_def from_pos_def
        to_pos_def getLine_def sample_doc_def editor_of_def isCursorOutRange_def
        collapsed_state_def sample_range_def upto.simps)

theorem process_twice_witness:
  "stateless (blockStartTokenRegexp
      (recording_config (literal ''<<<BEGIN'' False) (literal ''END>>>'' False) True))
   \<and> stateless (blockEndTokenRegex
      (recording_config (literal ''<<<BEGIN'' False) (literal ''END>>>'' False) True))
   \<and> wf_state collapsed_state
   \<and> process_scan (literal ''<<<BEGIN'' False) (literal ''END>>>'' False) sample_doc 0 2 True 0 0
     = Inr \<lparr>meetBeginToken = False, prevBeginTokenLineNumber = - 1,
            beginMatch = Some [''<<<BEGIN''], blockRangeList = [sample_range],
            startLastIndex = 0, endLastIndex = 0\<rparr>
   \<and> well_separated [sample_range]
   \<and> calm (recording_config (literal ''<<<BEGIN'' False) (literal ''END>>>'' False) True)
        (editor_of sample_doc 0 2 2) sample_range collapsed_state
   \<and> process (recording_config (literal ''<<<BEGIN'' False) (literal ''END>>>'' False) True)
       (editor_of sample_doc 0 2 2) True collapsed_state
     = Done \<lparr>st_markers = [],
             st_widgets =
               [\<lparr>lw_id = 1, lw_line = 4, lw_className = ''mk-line-widget'',
                 lw_node = [Rendered (Some (Some [''<<<BEGIN''], Some [''END>>>''],
                                            ''a'' @ [CHR 0x0A] @ ''b'', 1, 4))]\<rparr>],
             st_next_id = 2,
             st_mutations = [MarkerCleared 0, NodeEmptied 1, NodeAppended 1],
             st_startLastIndex = 0, st_endLastIndex = 0\<rparr>
   \<and> process (recording_config (literal ''<<<BEGIN'' False) (literal ''END>>>'' False) True)
       (editor_of sample_doc 0 2 2) True
       \<lparr>st_markers = [],
        st_widgets =
          [\<lparr>lw_id = 1, lw_line = 4, lw_className = ''mk-line-widget'',
            lw_node = [Rendered (Some (Some [''<<<BEGIN''], Some [''END>>>''],
                                       ''a'' @ [CHR 0x0A] @ ''b'', 1, 4))]\<rparr>],
        st_next_id = 2,
        st_mutations = [MarkerCleared 0, NodeEmptied 1, NodeAppended 1],
        st_startLastIndex = 0, st_endLastIndex = 0\<rparr>
     = Done \<lparr>st_markers = [],
             st_widgets =
               [\<lparr>lw_id = 1, lw_line = 4, lw_className = ''mk-line-widget'',
                 lw_node = [Rendered (Some (Some [''<<<BEGIN''], Some [''END>>>''],
                                            ''a'' @ [CHR 0x0A] @ ''b'', 1, 4))]\<rparr>],
             st_next_id = 2,
             st_mutations = [MarkerCleared 0, NodeEmptied 1, NodeAppended 1,
                             NodeEmptied 1, NodeAppended 1],
             st_startLastIndex = 0, st_endLastIndex = 0\<rparr>"
proof -
  let ?cfg = "recording_config (literal ''<<<BEGIN'' False) (literal ''END>>>'' False) True"
  let ?ed = "editor_of sample_doc 0 2 2"
  let ?st = "\<lparr>meetBeginToken = False, prevBeginTokenLineNumber = - 1,
            beginMatch = Some [''<<<BEGIN''], blockRangeList = [sample_range],
            startLastIndex = 0, endLastIndex = 0\<rparr>"
  let ?s1 = "\<lparr>st_markers = [],
             st_widgets =
               [\<lparr>lw_id = 1, lw_line = 4, lw_className = ''mk-line-widget'',
                 lw_node = [Rendered (Some (Some [''<<<BEGIN''], Some [''END>>>''],
                                            ''a'' @ [CHR 0x0A] @ ''b'', 1, 4))]\<rparr>],
             st_next_id = 2,
             st_mutations = [MarkerCleared 0, NodeEmptied 1, NodeAppended 1],
             st_startLastIndex = 0, st_endLastIndex = 0\<rparr> :: call state"
  have sl: "stateless (blockStartTokenRegexp ?cfg)" "stateless (blockEndTokenRegex ?cfg)"
    by (simp_all add: stateless_def recording_config_def literal_def)
  have wf: "wf_state collapsed_state"
    by (simp add: wf_state_def collapsed_state_def)
  have sc: "process_scan (literal ''<<<BEGIN'' False) (literal ''END>>>'' False) sample_doc
              0 2 True 0 0 = Inr ?st"
    by (simp add: sample_scan sample_range_def)
  then have scan: "process_scan (blockStartTokenRegexp ?cfg) (blockEndTokenRegex ?cfg)
                (ed_lines ?ed) (ed_viewport_from ?ed) (ed_viewport_to ?ed) True
                (st_startLastIndex collapsed_state) (st_endLastIndex collapsed_state) = Inr ?st"
    by (simp add: recording_config_def editor_of_def collapsed_state_def)
  have sep1: "well_separated [sample_range]"
    by (simp add: well_separated_def sample_range_def)
  then have sep: "well_separated (blockRangeList ?st)" by simp
  have calm1: "calm ?cfg ?ed sample_range collapsed_state" by (rule sample_calm)
  then have calm: "\<forall>r\<in>set (blockRangeList ?st). calm ?cfg ?ed r collapsed_state" by simp
  have first: "process ?cfg ?ed True collapsed_state = Done ?s1"
    by (simp add: sample_collapsed_pass)
  have rb: "concat (map (rebuilds_of ?cfg ?ed ?s1) (blockRangeList ?st))
            = [NodeEmptied 1, NodeAppended 1]"
    by (simp add: rebuilds_of_def class_widgets_at_def lineWidgetClassName_def
          recording_config_def from_pos_def to_pos_def editor_of_def isCursorOutRange_def
          sample_range_def)
  from process_twice [OF sl wf scan sep calm first]
  have "process ?cfg ?ed True ?s1
        = Done (?s1\<lparr>st_mutations := st_mutations ?s1 @ [NodeEmptied 1, NodeAppended 1]\<rparr>)"
    by (simp only: rb)
  then have two: "process ?cfg ?ed True ?s1
        = Done \<lparr>st_markers = [],
             st_widgets =
               [\<lparr>lw_id = 1, lw_line = 4, lw_className = ''mk-line-widget'',
                 lw_node = [Rendered (Some (Some [''<<<BEGIN''], Some [''END>>>''],
                                            ''a'' @ [CHR 0x0A] @ ''b'', 1, 4))]\<rparr>],
             st_next_id = 2,
             st_mutations = [MarkerCleared 0, NodeEmptied 1, NodeAppended 1,
                             NodeEmptied 1, NodeAppended 1],
             st_startLastIndex = 0, st_endLastIndex = 0\<rparr>"
    by simp
  from sl wf sc sep1 calm1 first two show ?thesis by blast
qed

end
